theory Spec2Isabelle
  imports Complex_Main "HOL-Library.Product_Lexorder"
begin

section \<open>Data model\<close>

text \<open>
  A cell of the road grid: \<open>null\<close> (open drivable space), \<open>0\<close> (blockage) or a
  reference to a car object. Car objects live in a heap indexed by a reference
  number, so that the grid, the car list and the callers share one object, as the
  JavaScript references do.
\<close>

datatype cell = Empty | Blockage | CarRef nat

datatype car_state = Default | Merge | Yield | Right

datatype space_type = SCars | SBlockage | SAll | SEmpty

text \<open>
  The fields of class \<open>Car\<close>. Numbers that the source computes with fractions are
  reals (the IEEE rounding of JavaScript numbers is not modelled); lane and cell
  indices and the let-in counter are naturals. \<open>lastMoved\<close> is \<open>None\<close> for the
  initial sentinel \<open>-1\<close> and otherwise the millisecond time stamp of the last drive.
\<close>

record car =
  laneNumber :: nat
  lanePosX :: nat
  state :: car_state
  speed :: real
  carsLetIn :: nat
  mergeTendency :: real
  cooperation :: real
  aggressiveness :: real
  followingDistance :: real
  indicator :: bool
  lastMoved :: "int option"
  distance :: real
  startTime :: "int option"
  startLane :: nat

record completed =
  c_startLane :: nat
  travelTime :: int
  expirationTime :: int

record road =
  roadSpace :: "cell list list"
  cars :: "nat list"
  blockedLanes :: int
  trails :: "int list"
  completedCars :: "completed list"
  spaceSize :: real
  heap :: "nat \<Rightarrow> car"

subsection \<open>Constants\<close>

definition ROAD_WIDTH :: nat where "ROAD_WIDTH = 50"
definition BLOCK_START :: nat where "BLOCK_START = 40"
definition CAR_TRAIL_LIFESPAN :: int where "CAR_TRAIL_LIFESPAN = 10000"
definition RUBBERNECK_SPEED_FACTOR :: real where "RUBBERNECK_SPEED_FACTOR = 85 / 100"
definition RUBBERNECK_ZONE_LENGTH :: nat where "RUBBERNECK_ZONE_LENGTH = 8"

definition FOLLOWING_DISTANCE_MID :: real where "FOLLOWING_DISTANCE_MID = 3"
definition FOLLOWING_DISTANCE_LOW :: real where "FOLLOWING_DISTANCE_LOW = 2 / 10"
definition FOLLOWING_DISTANCE_HIGH :: real where "FOLLOWING_DISTANCE_HIGH = 5"
definition MERGE_DISTANCE_MID :: real where "MERGE_DISTANCE_MID = 25"
definition MERGE_DISTANCE_LOW :: real where "MERGE_DISTANCE_LOW = 50"
definition MERGE_DISTANCE_HIGH :: real where "MERGE_DISTANCE_HIGH = 2"
definition MERGE_GAP_MID :: real where "MERGE_GAP_MID = 15 / 10"
definition MERGE_GAP_LOW :: real where "MERGE_GAP_LOW = 8 / 10"
definition MERGE_GAP_HIGH :: real where "MERGE_GAP_HIGH = 3"
definition MERGE_SPACE_MID :: real where "MERGE_SPACE_MID = 3"
definition MERGE_SPACE_LOW :: real where "MERGE_SPACE_LOW = 1"
definition MERGE_SPACE_HIGH :: real where "MERGE_SPACE_HIGH = 5"
definition MAX_SPEED :: real where "MAX_SPEED = 66"

section \<open>Car\<close>

text \<open>
  \<open>getValueFromNormalized(input, low, mid, high)\<close>: the source compares the input
  with the anchor \<open>mid\<close> (not with 0.5) to pick the branch.
\<close>

definition getValueFromNormalized :: "real \<Rightarrow> real \<Rightarrow> real \<Rightarrow> real \<Rightarrow> real" where
  "getValueFromNormalized input low mid high =
     (if input = mid then mid
      else if input < mid then
        (let spread = mid - low; get = (input / (1 / 2)) * spread in low + get)
      else
        (let spread = high - mid; get = ((input - 1 / 2) / (1 / 2)) * spread in mid + get))"

text \<open>The constructor \<open>new Car(mergeTendency, cooperation, aggressiveness, laneNumber)\<close>.\<close>

definition newCar :: "real \<Rightarrow> real \<Rightarrow> real \<Rightarrow> nat \<Rightarrow> car" where
  "newCar mt coop aggr laneN =
     \<lparr> laneNumber = laneN, lanePosX = 0, state = Default, speed = MAX_SPEED,
       carsLetIn = 0, mergeTendency = mt, cooperation = coop, aggressiveness = aggr,
       followingDistance =
         getValueFromNormalized aggr FOLLOWING_DISTANCE_LOW FOLLOWING_DISTANCE_MID
           FOLLOWING_DISTANCE_HIGH,
       indicator = False, lastMoved = None, distance = 0, startTime = None,
       startLane = laneN \<rparr>"

definition getDesiredMergeGap :: "car \<Rightarrow> real" where
  "getDesiredMergeGap c =
     getValueFromNormalized (aggressiveness c) MERGE_GAP_LOW MERGE_GAP_MID MERGE_GAP_HIGH"

text \<open>
  \<open>getDesiredMergeSpace(road, urgencyFactor)\<close>. The road argument is optional in the
  source (\<open>road instanceof Road ? road.getSpaceSize() : 15\<close>): \<open>None\<close> is the call
  without a road.
\<close>

definition getDesiredMergeSpace :: "car \<Rightarrow> road option \<Rightarrow> real \<Rightarrow> real" where
  "getDesiredMergeSpace c rd urgencyFactor =
     (let gapSeconds = getDesiredMergeGap c * urgencyFactor;
          sz = (case rd of Some r \<Rightarrow> spaceSize r | None \<Rightarrow> 15);
          spacesNeeded = (speed c * gapSeconds) / sz;
          minSpaces = getValueFromNormalized (aggressiveness c) MERGE_SPACE_LOW
                        MERGE_SPACE_MID MERGE_SPACE_HIGH
      in max minSpaces (of_int \<lceil>spacesNeeded\<rceil>))"

definition getDesiredMergingDistance :: "car \<Rightarrow> real" where
  "getDesiredMergingDistance c =
     getValueFromNormalized (mergeTendency c) MERGE_DISTANCE_LOW MERGE_DISTANCE_MID
       MERGE_DISTANCE_HIGH"

text \<open>\<open>getCarQuota\<close>: \<open>Math.round(x)\<close> is \<open>floor(x + 0.5)\<close>.\<close>

definition getCarQuota :: "road \<Rightarrow> car \<Rightarrow> int" where
  "getCarQuota r c =
     (let perfectQuota = blockedLanes r - int (laneNumber c)
      in \<lfloor>cooperation c * of_int perfectQuota + 1 / 2\<rfloor>)"

definition adjustSpeedBy :: "car \<Rightarrow> real \<Rightarrow> car" where
  "adjustSpeedBy c amount =
     (let effected = speed c + amount in
      if effected \<ge> MAX_SPEED then c\<lparr>speed := MAX_SPEED\<rparr>
      else if effected \<le> 0 then c\<lparr>speed := 0\<rparr>
      else c\<lparr>speed := effected\<rparr>)"

definition alertMerge :: "car \<Rightarrow> car" where
  "alertMerge c = c\<lparr>carsLetIn := carsLetIn c + 1\<rparr>"

definition setLanePos :: "car \<Rightarrow> nat \<Rightarrow> nat \<Rightarrow> car" where
  "setLanePos c laneN laneX = c\<lparr>laneNumber := laneN, lanePosX := laneX\<rparr>"

section \<open>Decision logic\<close>

text \<open>
  Reading a JavaScript array: \<open>None\<close> is \<open>undefined\<close>, the value of a read past the
  end. \<open>isNull v\<close> is the loose test \<open>v == null\<close>, which \<open>undefined\<close> passes too;
  \<open>isCarCell v\<close> is \<open>v instanceof Car\<close>.
\<close>

definition laneGet :: "cell list \<Rightarrow> nat \<Rightarrow> cell option" where
  "laneGet xs k = (if k < length xs then Some (xs ! k) else None)"

definition isNull :: "cell option \<Rightarrow> bool" where
  "isNull v = (case v of None \<Rightarrow> True | Some Empty \<Rightarrow> True | Some _ \<Rightarrow> False)"

definition isCarCell :: "cell option \<Rightarrow> bool" where
  "isCarCell v = (case v of Some (CarRef _) \<Rightarrow> True | _ \<Rightarrow> False)"

definition updCar :: "road \<Rightarrow> nat \<Rightarrow> (car \<Rightarrow> car) \<Rightarrow> road" where
  "updCar r i f = r\<lparr>heap := (heap r)(i := f (heap r i))\<rparr>"

text \<open>\<open>getLaneData\<close>: \<open>None\<close> is the error code \<open>-1\<close> for an invalid lane.\<close>

definition getLaneData :: "road \<Rightarrow> nat \<Rightarrow> cell list option" where
  "getLaneData r lane =
     (if lane < length (roadSpace r) then Some (roadSpace r ! lane) else None)"

text \<open>
  The loop of \<open>getDistance\<close> over the cells after \<open>laneX\<close>, with the running
  \<open>distance\<close>; \<open>100\<close> when the lane ends without a match.
\<close>

fun scanCells :: "space_type \<Rightarrow> cell list \<Rightarrow> int \<Rightarrow> int" where
  "scanCells target [] d = 100"
| "scanCells target (c # cs) d =
     (if target = SAll \<and> c \<noteq> Empty then d
      else if target = SBlockage \<and> c = Blockage then d
      else if target = SCars \<and> isCarCell (Some c) then d
      else scanCells target cs (d + 1))"

definition getDistance :: "road \<Rightarrow> nat \<Rightarrow> nat \<Rightarrow> space_type \<Rightarrow> int" where
  "getDistance r lane laneX target =
     (case getLaneData r lane of
        None \<Rightarrow> - 1
      | Some laneData \<Rightarrow>
          if laneX + 1 \<ge> length laneData then - 2
          else scanCells target (drop (laneX + 1) laneData) 0)"

record openings =
  left_ahead :: int
  left_beside :: int
  left_behind :: int

definition noOpenings :: openings where
  "noOpenings = \<lparr> left_ahead = 0, left_beside = 0, left_behind = 0 \<rparr>"

text \<open>
  The \<open>while\<close> loop of \<open>getLeftOpenSpaces\<close>: it starts at the beside cell itself and
  walks back while the cell is empty and the index is positive.
\<close>

fun countBehind :: "cell list \<Rightarrow> nat \<Rightarrow> int" where
  "countBehind leftLane 0 = 0"
| "countBehind leftLane (Suc k) =
     (if isNull (laneGet leftLane (Suc k)) then 1 + countBehind leftLane k else 0)"

text \<open>\<open>getLeftOpenSpaces\<close>: \<open>None\<close> is the numeric error code \<open>-1\<close>.\<close>

definition getLeftOpenSpaces :: "road \<Rightarrow> nat \<Rightarrow> nat \<Rightarrow> openings option" where
  "getLeftOpenSpaces r lane laneX =
     (case getLaneData r lane of
        None \<Rightarrow> None
      | Some laneData \<Rightarrow>
          if lane \<le> 0 then Some noOpenings
          else
            (case getLaneData r (lane - 1) of
               None \<Rightarrow> None
             | Some leftLaneData \<Rightarrow>
                 if length leftLaneData \<noteq> length laneData then None
                 else if int laneX \<ge> int (length laneData) - 1 then Some noOpenings
                 else if \<not> isNull (laneGet leftLaneData laneX) then Some noOpenings
                 else
                   let aheadSpaces = getDistance r (lane - 1) laneX SAll;
                       behindSpaces = countBehind leftLaneData laneX
                   in Some \<lparr> left_ahead = (if aheadSpaces \<ge> 0 then aheadSpaces else 0),
                             left_beside = 1,
                             left_behind = behindSpaces \<rparr>))"

definition getMergeUrgency :: "road \<Rightarrow> nat \<Rightarrow> real" where
  "getMergeUrgency r i =
     (let distanceToBlockage =
            getDistance r (laneNumber (heap r i)) (lanePosX (heap r i)) SBlockage
      in if distanceToBlockage < 0 \<or> distanceToBlockage \<ge> 100 then 1
         else if distanceToBlockage \<ge> 20 then 1
         else if distanceToBlockage \<ge> 10 then
           7 / 10 + of_int (distanceToBlockage - 10) * (3 / 100)
         else if distanceToBlockage \<ge> 5 then
           5 / 10 + of_int (distanceToBlockage - 5) * (4 / 100)
         else max (3 / 10) (3 / 10 + of_int (distanceToBlockage - 2) * (67 / 1000)))"

text \<open>The car references among some cells, in order.\<close>

fun carsIn :: "cell list \<Rightarrow> nat list" where
  "carsIn [] = []"
| "carsIn (CarRef j # cs) = j # carsIn cs"
| "carsIn (c # cs) = carsIn cs"

text \<open>
  \<open>getLeft10AverageSpeed\<close>. The outer \<open>None\<close> is the \<open>TypeError\<close> that
  \<open>road.roadSpace[currentLane - 1].length\<close> raises when the car's lane index lies
  beyond the lane next to the grid.
\<close>

definition getLeft10AverageSpeed :: "road \<Rightarrow> nat \<Rightarrow> real option" where
  "getLeft10AverageSpeed r i =
     (let currentLane = laneNumber (heap r i); currentLaneX = lanePosX (heap r i) in
      if currentLane \<le> 0 then Some (- 1)
      else
        (case getLaneData r (currentLane - 1) of
           None \<Rightarrow> None
         | Some leftLane \<Rightarrow>
             let roadWidth = length leftLane;
                 checkStart = nat (max 0 (int currentLaneX - 5));
                 checkEnd = min roadWidth (currentLaneX + 5);
                 found = carsIn (take (checkEnd - checkStart) (drop checkStart leftLane));
                 totalSpeed = foldl (\<lambda>s j. s + speed (heap r j)) 0 found;
                 carCount = length found
             in if carCount = 0 then Some (- 1)
                else Some (totalSpeed / real carCount)))"

text \<open>
  \<open>checkUnderCarLeftQuota\<close>. With the error code instead of the openings, every
  path of the source returns \<open>true\<close> (\<open>undefined <= 0\<close> and \<open>NaN < 0\<close> are false and
  the cell read at index \<open>NaN\<close> is \<open>undefined\<close>).
\<close>

definition checkUnderCarLeftQuota :: "road \<Rightarrow> nat \<Rightarrow> openings option \<Rightarrow> bool" where
  "checkUnderCarLeftQuota r i spaces =
     (case spaces of
        None \<Rightarrow> True
      | Some sp \<Rightarrow>
          let spacesBehind = left_behind sp in
          if spacesBehind \<le> 0 then True
          else
            let totLanes = length (roadSpace r);
                carLane = laneNumber (heap r i);
                carX = lanePosX (heap r i)
            in if carLane \<le> 0 \<or> carLane \<ge> totLanes then True
               else
                 let totLaneX = length (roadSpace r ! (carLane - 1));
                     laneNCheck = carLane - 1;
                     laneXCheck = int carX - spacesBehind
                 in if laneXCheck < 0 \<or> laneNCheck \<ge> totLaneX then True
                    else
                      (case laneGet (roadSpace r ! laneNCheck) (nat laneXCheck) of
                         Some (CarRef t) \<Rightarrow>
                           let quota = getCarQuota r (heap r t);
                               numberCars = carsLetIn (heap r t)
                           in if int numberCars < quota then True else False
                       | _ \<Rightarrow> True))"

text \<open>
  \<open>canMerge\<close>. The quota check is evaluated and tested, but the body of that \<open>if\<close> is
  a comment in the source. With the error code for the openings the sum is \<open>NaN\<close> and
  the comparison fails.
\<close>

definition canMerge :: "road \<Rightarrow> nat \<Rightarrow> bool option" where
  "canMerge r i =
     (let urgencyFactor = getMergeUrgency r i;
          desiredSpaces0 = getDesiredMergeSpace (heap r i) (Some r) urgencyFactor
      in case getLeft10AverageSpeed r i of
           None \<Rightarrow> None
         | Some leftSpeed \<Rightarrow>
             let desiredSpaces =
                   (if leftSpeed \<ge> 0 \<and> leftSpeed \<le> 1 \<and> desiredSpaces0 > 2 then 2
                    else desiredSpaces0);
                 spaces = getLeftOpenSpaces r (laneNumber (heap r i)) (lanePosX (heap r i));
                 quotaGate =
                   (if \<not> checkUnderCarLeftQuota r i spaces \<and> leftSpeed \<le> MAX_SPEED / 2
                    then () else ())
             in (case spaces of
                   None \<Rightarrow> Some False
                 | Some sp \<Rightarrow>
                     let totSpaces = left_ahead sp + left_behind sp + left_beside sp
                     in if of_int totSpaces \<ge> desiredSpaces then Some True else Some False))"

text \<open>
  The search loop of \<open>shouldLetCarIn\<close> over the cells \<open>from .. upto\<close> (inclusive) of the
  next lane; a read past the end is \<open>undefined\<close> and no car.
\<close>

definition indicatingCarAt :: "road \<Rightarrow> cell list \<Rightarrow> nat \<Rightarrow> bool" where
  "indicatingCarAt r lane k =
     (case laneGet lane k of Some (CarRef j) \<Rightarrow> indicator (heap r j) | _ \<Rightarrow> False)"

definition shouldLetCarIn :: "road \<Rightarrow> nat \<Rightarrow> bool" where
  "shouldLetCarIn r i =
     (let c = heap r i in
      if int (carsLetIn c) \<ge> getCarQuota r c then False
      else
        let currentLane = laneNumber c; currentLaneX = lanePosX c;
            totLanes = length (roadSpace r)
        in if int currentLane \<ge> int totLanes - 1 then False
           else
             let nextLaneOver = roadSpace r ! (currentLane + 1);
                 roadWidth = length nextLaneOver
             in if int currentLaneX + 1 \<ge> int roadWidth - 1 then False
                else
                  let d = getDistance r (currentLane + 1) (currentLaneX + 1) SAll;
                      distanceAhead = (if d < 0 then int roadWidth else d);
                      roadXComp = min (int roadWidth) (int currentLaneX + 1 + distanceAhead)
                  in list_ex (indicatingCarAt r nextLaneOver)
                       [currentLaneX + 1 ..< nat (roadXComp + 1)])"

text \<open>\<open>Car.getDesiredDistance\<close>: the merge space is asked for without a road.\<close>

definition getDesiredDistance :: "road \<Rightarrow> nat \<Rightarrow> real" where
  "getDesiredDistance r i =
     (if shouldLetCarIn r i then getDesiredMergeSpace (heap r i) None 1 * spaceSize r
      else speed (heap r i) * followingDistance (heap r i))"

text \<open>
  The loop of \<open>alertRearDriver\<close>: the first car in the cells \<open>k - 1\<close> down to \<open>0\<close>.
\<close>

fun firstCarBehind :: "cell list \<Rightarrow> nat \<Rightarrow> nat option" where
  "firstCarBehind lane 0 = None"
| "firstCarBehind lane (Suc k) =
     (case laneGet lane k of
        Some (CarRef j) \<Rightarrow> Some j
      | _ \<Rightarrow> firstCarBehind lane k)"

definition alertRearDriver :: "road \<Rightarrow> nat \<Rightarrow> nat \<Rightarrow> road" where
  "alertRearDriver r i newLane =
     (let currentLaneX = lanePosX (heap r i) in
      if newLane \<ge> length (roadSpace r) then r
      else if currentLaneX \<le> 0 then r
      else
        (case firstCarBehind (roadSpace r ! newLane) currentLaneX of
           Some j \<Rightarrow> updCar r j alertMerge
         | None \<Rightarrow> r))"

definition isInRubberneckZone :: "road \<Rightarrow> nat \<Rightarrow> bool" where
  "isInRubberneckZone r i =
     (let carLane = laneNumber (heap r i); carX = lanePosX (heap r i);
          numLanes = length (roadSpace r)
      in if int carLane \<ge> int numLanes - blockedLanes r then False
         else carX \<ge> BLOCK_START \<and> carX < BLOCK_START + RUBBERNECK_ZONE_LENGTH)"

text \<open>
  The amount that the rubbernecking branch of \<open>effectSpeed\<close> adds to \<open>difference\<close>:
  \<open>rubberneckAdjustment * rubberneckIntensity\<close>.
\<close>

definition rubberneckTerm :: "car \<Rightarrow> real" where
  "rubberneckTerm c =
     (let depthInZone = (real (lanePosX c) - real BLOCK_START) / real RUBBERNECK_ZONE_LENGTH;
          rubberneckIntensity = 1 - depthInZone;
          targetSpeed = speed c * (RUBBERNECK_SPEED_FACTOR
                          + (1 - RUBBERNECK_SPEED_FACTOR) * depthInZone);
          rubberneckAdjustment = targetSpeed - speed c
      in rubberneckAdjustment * rubberneckIntensity)"

text \<open>
  The value of \<open>difference\<close> in \<open>effectSpeed\<close> before the rubbernecking branch, given
  the distance to the obstacle ahead: following distance, blended with the speed of
  the left lane for a merging car.
\<close>

definition followingDifference :: "road \<Rightarrow> nat \<Rightarrow> int \<Rightarrow> real option" where
  "followingDifference r i actualDistanceSpaces =
     (let c = heap r i;
          desiredDistance = getDesiredDistance r i;
          actualDistanceFeet = of_int actualDistanceSpaces * spaceSize r;
          difference = actualDistanceFeet - desiredDistance
      in if state c = Merge then
           (case getLeft10AverageSpeed r i of
              None \<Rightarrow> None
            | Some leftLaneSpeed \<Rightarrow>
                if leftLaneSpeed \<ge> 0 then
                  let speedDiff = leftLaneSpeed - speed c;
                      speedMatchAdjustment = speedDiff * (3 / 10);
                      urgency = getMergeUrgency r i;
                      speedMatchWeight = 1 - urgency
                  in Some (difference * (1 - speedMatchWeight)
                           + speedMatchAdjustment * speedMatchWeight * 10)
                else Some difference)
         else Some difference)"

definition effectSpeed :: "road \<Rightarrow> nat \<Rightarrow> road option" where
  "effectSpeed r i =
     (let c = heap r i;
          actualDistanceSpaces = getDistance r (laneNumber c) (lanePosX c) SAll
      in if actualDistanceSpaces < 0 then Some r
         else
           (case followingDifference r i actualDistanceSpaces of
              None \<Rightarrow> None
            | Some difference \<Rightarrow>
                let difference' =
                      (if isInRubberneckZone r i then difference + rubberneckTerm c
                       else difference)
                in Some (updCar r i (\<lambda>c. adjustSpeedBy c difference'))))"

definition effectMergeState :: "road \<Rightarrow> nat \<Rightarrow> road" where
  "effectMergeState r i =
     (let c = heap r i;
          desiredMergingDistance = getDesiredMergingDistance c;
          distanceToMerge = getDistance r (laneNumber c) (lanePosX c) SBlockage;
          difference = of_int distanceToMerge - desiredMergingDistance;
          currentState = state c
      in if difference \<le> 0 then
           (if currentState \<noteq> Merge then updCar r i (\<lambda>c. c\<lparr>state := Merge\<rparr>) else r)
         else
           (if currentState \<noteq> Default then updCar r i (\<lambda>c. c\<lparr>state := Default\<rparr>) else r))"

section \<open>Road\<close>

text \<open>
  The inner loop of \<open>placeBlockage\<close>: every cell from \<open>BLOCK_START\<close> to the end of the
  lane becomes a blockage.
\<close>

definition blockLane :: "cell list \<Rightarrow> cell list" where
  "blockLane lane =
     (if length lane \<ge> BLOCK_START
      then take BLOCK_START lane @ replicate (length lane - BLOCK_START) Blockage
      else lane)"

definition placeBlockage :: "road \<Rightarrow> int \<Rightarrow> road" where
  "placeBlockage r lanesToBlock =
     (if int (length (roadSpace r)) \<le> lanesToBlock then r
      else
        let numLanes = length (roadSpace r);
            rs = fold (\<lambda>k rs. rs[numLanes - 1 - k := blockLane (rs ! (numLanes - 1 - k))])
                   [0 ..< nat lanesToBlock] (roadSpace r)
        in r\<lparr>roadSpace := rs, blockedLanes := lanesToBlock\<rparr>)"

text \<open>
  The constructor \<open>new Road(lanes, blockedLanes, spaceSize)\<close>, with the car objects
  \<open>h\<close> that exist. \<open>None\<close> is the rejected construction, which returns early and
  leaves an object without lanes and without a space size.
\<close>

definition newRoad :: "int \<Rightarrow> int \<Rightarrow> real \<Rightarrow> (nat \<Rightarrow> car) \<Rightarrow> road option" where
  "newRoad lanes blocked sz h =
     (if lanes < 2 \<or> blocked \<ge> lanes then None
      else Some (placeBlockage
        \<lparr> roadSpace = replicate (nat lanes) (replicate ROAD_WIDTH Empty), cars = [],
          blockedLanes = 0, trails = [], completedCars = [], spaceSize = sz, heap = h \<rparr>
        blocked))"

text \<open>
  \<open>getRandomLane\<close>, with \<open>k\<close> for the value of
  \<open>Math.floor(Math.random() * openLanesN)\<close>. \<open>Some (-1)\<close> is the answer without an
  open lane; \<open>None\<close> is \<open>undefined\<close>, the read of \<open>openLanes\<close> past its end, which a
  \<open>Math.random()\<close> below 1 never asks for.
\<close>

definition getRandomLane :: "road \<Rightarrow> nat \<Rightarrow> int option" where
  "getRandomLane r k =
     (let openLanes = filter (\<lambda>l. isNull (laneGet (roadSpace r ! l) 0))
                        [0 ..< length (roadSpace r)];
          openLanesN = length openLanes
      in if openLanesN \<le> 0 then Some (- 1)
         else if k < openLanesN then Some (int (openLanes ! k)) else None)"

text \<open>
  The assignment \<open>roadSpace[lane][laneX] = v\<close>. Every lane that the constructor
  builds has \<open>ROAD_WIDTH\<close> cells and no operation changes a length, so the index is
  in range wherever the program assigns (JavaScript would extend a shorter array).
\<close>

definition setCell :: "cell list list \<Rightarrow> nat \<Rightarrow> nat \<Rightarrow> cell \<Rightarrow> cell list list" where
  "setCell rs lane laneX v = rs[lane := (rs ! lane)[laneX := v]]"

text \<open>\<open>addCar\<close> of the car object \<open>i\<close>, at the clock value \<open>now\<close>.\<close>

definition addCar :: "road \<Rightarrow> nat \<Rightarrow> nat \<Rightarrow> int \<Rightarrow> road" where
  "addCar r i k now =
     (case getRandomLane r k of
        None \<Rightarrow> r
      | Some lane \<Rightarrow>
          if lane < 0 then r
          else
            r\<lparr>roadSpace := setCell (roadSpace r) (nat lane) 0 (CarRef i),
              cars := cars r @ [i],
              heap := (heap r)(i := (setLanePos (heap r i) (nat lane) 0)
                         \<lparr>startTime := Some now, startLane := nat lane\<rparr>)\<rparr>)"

text \<open>
  \<open>setCarPos\<close>, returning the road and the result code (\<open>-1\<close> or \<open>0\<close>). The car's
  current cell is cleared before the destination is tested.
\<close>

definition setCarPos :: "road \<Rightarrow> nat \<Rightarrow> nat \<Rightarrow> nat \<Rightarrow> road \<times> int" where
  "setCarPos r i lane laneX =
     (let numberOfLanes = length (roadSpace r) in
      if lane \<ge> numberOfLanes \<or> laneX \<ge> ROAD_WIDTH then (r, - 1)
      else
        let currentLane = laneNumber (heap r i);
            currentLaneX = lanePosX (heap r i)
        in if currentLane \<ge> numberOfLanes \<or> currentLaneX \<ge> ROAD_WIDTH then (r, - 1)
           else
             let r1 = (if currentLane \<noteq> lane
                       then updCar (alertRearDriver r i lane) i alertMerge else r);
                 r2 = r1\<lparr>roadSpace := setCell (roadSpace r1) currentLane currentLaneX Empty\<rparr>;
                 newSpace = laneGet (roadSpace r2 ! lane) laneX
             in if \<not> isNull newSpace then (r2, - 1)
                else
                  (updCar (r2\<lparr>roadSpace := setCell (roadSpace r2) lane laneX (CarRef i)\<rparr>) i
                     (\<lambda>c. setLanePos c lane laneX),
                   0))"

text \<open>
  \<open>merge\<close>. \<open>None\<close> is the \<open>TypeError\<close> of reading a cell of a lane that does not exist.
\<close>

definition merge :: "road \<Rightarrow> nat \<Rightarrow> road option" where
  "merge r i =
     (let currentLane = laneNumber (heap r i);
          currentLaneX = lanePosX (heap r i)
      in if int currentLane - 1 < 0 then Some r
         else
           (case getLaneData r (currentLane - 1) of
              None \<Rightarrow> None
            | Some leftLane \<Rightarrow>
                let mergeSpace = laneGet leftLane currentLaneX in
                if isNull mergeSpace then Some (fst (setCarPos r i (currentLane - 1) currentLaneX))
                else Some r))"

text \<open>
  \<open>Car.drive\<close> at the clock value \<open>now\<close>. \<open>drivePrepare\<close> is the part before the
  merge test: distance, speed, merge state, time stamp and indicator, for a car that
  last moved at \<open>t\<close>.
\<close>

definition drivePrepare :: "road \<Rightarrow> nat \<Rightarrow> int \<Rightarrow> int \<Rightarrow> road option" where
  "drivePrepare r i now t =
     (let elapsedMs = now - t;
          r1 = updCar r i (\<lambda>c. c\<lparr>distance := distance c + speed c * (of_int elapsedMs / 1000)\<rparr>)
      in case effectSpeed r1 i of
           None \<Rightarrow> None
         | Some r2 \<Rightarrow>
             let r3 = effectMergeState r2 i;
                 r4 = updCar r3 i (\<lambda>c. c\<lparr>lastMoved := Some now\<rparr>)
             in Some (updCar r4 i (\<lambda>c. c\<lparr>indicator := (state c = Merge)\<rparr>)))"

definition drive :: "road \<Rightarrow> nat \<Rightarrow> int \<Rightarrow> road option" where
  "drive r i now =
     (case lastMoved (heap r i) of
        None \<Rightarrow> Some (updCar r i (\<lambda>c. c\<lparr>lastMoved := Some now\<rparr>))
      | Some t \<Rightarrow>
          (case drivePrepare r i now t of
             None \<Rightarrow> None
           | Some r5 \<Rightarrow>
               if state (heap r5 i) = Merge then
                 (case canMerge r5 i of
                    None \<Rightarrow> None
                  | Some ok \<Rightarrow> if ok then merge r5 i else Some r5)
               else Some r5))"

text \<open>\<open>Array.indexOf\<close>: the first position of the element, or \<open>-1\<close>.\<close>

fun indexOf :: "nat list \<Rightarrow> nat \<Rightarrow> int" where
  "indexOf [] x = - 1"
| "indexOf (y # ys) x =
     (if x = y then 0 else (let k = indexOf ys x in if k < 0 then - 1 else k + 1))"

text \<open>The cell that a car's cumulative distance asks for.\<close>

definition desiredLaneX :: "road \<Rightarrow> nat \<Rightarrow> int" where
  "desiredLaneX r i =
     (let d = \<lfloor>distance (heap r i) / spaceSize r\<rfloor> - 1 in if d < 0 then 0 else d)"

text \<open>
  \<open>driveCar\<close>, on the road and the list \<open>toRemove\<close> that \<open>driveCars\<close> passes along.
\<close>

definition driveCar :: "road \<times> int list \<Rightarrow> nat \<Rightarrow> int \<Rightarrow> (road \<times> int list) option" where
  "driveCar st i now =
     (let r = fst st; toRemove = snd st; index = indexOf (cars r) i in
      case drive r i now of
        None \<Rightarrow> None
      | Some r1 \<Rightarrow>
          let c = heap r1 i; desired = desiredLaneX r1 i in
          if desired \<noteq> int (lanePosX c) then
            let d = getDistance r1 (laneNumber c) (lanePosX c) SAll;
                availableSpace = (if d < 0 then int ROAD_WIDTH else d);
                maxLaneX = int (lanePosX c) + availableSpace;
                safeLaneX = min desired maxLaneX
            in if safeLaneX \<noteq> int (lanePosX c) then
                 let res = setCarPos r1 i (laneNumber c) (nat safeLaneX) in
                 if snd res = - 1 then Some (fst res, toRemove @ [index])
                 else Some (fst res, toRemove)
               else Some (r1, toRemove)
          else Some (r1, toRemove))"

fun driveAll :: "nat list \<Rightarrow> int \<Rightarrow> road \<times> int list \<Rightarrow> (road \<times> int list) option" where
  "driveAll [] now st = Some st"
| "driveAll (i # rest) now st =
     (case driveCar st i now of None \<Rightarrow> None | Some st' \<Rightarrow> driveAll rest now st')"

text \<open>\<open>Array.splice(item, 1)\<close>; a negative start counts from the end.\<close>

definition spliceOne :: "'a list \<Rightarrow> int \<Rightarrow> 'a list" where
  "spliceOne xs item =
     (let start = (if item < 0 then nat (max (int (length xs) + item) 0)
                   else min (nat item) (length xs))
      in take start xs @ drop (start + 1) xs)"

text \<open>
  One round of the removal loop of \<open>driveCars\<close>. \<open>None\<close> is the \<open>TypeError\<close> of
  clearing a cell in a lane that does not exist.
\<close>

definition removeStep :: "int \<Rightarrow> int \<Rightarrow> road \<Rightarrow> road option" where
  "removeStep now item r =
     (if 0 \<le> item \<and> nat item < length (cars r) then
        let i = cars r ! nat item; c = heap r i in
        if laneNumber c \<ge> length (roadSpace r) then None
        else
          Some (r\<lparr>roadSpace := setCell (roadSpace r) (laneNumber c) (lanePosX c) Empty,
                 trails := trails r @ [now + CAR_TRAIL_LIFESPAN],
                 completedCars :=
                   (case startTime c of
                      None \<Rightarrow> completedCars r
                    | Some t0 \<Rightarrow>
                        if t0 = 0 then completedCars r
                        else completedCars r @
                          [\<lparr> c_startLane = startLane c, travelTime = now - t0,
                             expirationTime = now + CAR_TRAIL_LIFESPAN \<rparr>]),
                 cars := spliceOne (cars r) item\<rparr>)
      else Some (r\<lparr>cars := spliceOne (cars r) item\<rparr>))"

fun removeAll_idx :: "int \<Rightarrow> int list \<Rightarrow> road \<Rightarrow> road option" where
  "removeAll_idx now [] r = Some r"
| "removeAll_idx now (item # rest) r =
     (case removeStep now item r of None \<Rightarrow> None | Some r' \<Rightarrow> removeAll_idx now rest r')"

text \<open>
  \<open>driveCars\<close>. The clock is read once per tick: \<open>now\<close>. The stable sort by lane and
  then by position is \<open>sort_key\<close> on the pair; the removal list is sorted downwards.
\<close>

definition sortedCars :: "road \<Rightarrow> nat list" where
  "sortedCars r = sort_key (\<lambda>i. (laneNumber (heap r i), lanePosX (heap r i))) (cars r)"

definition driveCars :: "road \<Rightarrow> int \<Rightarrow> road option" where
  "driveCars r now =
     (case driveAll (sortedCars r) now (r, []) of
        None \<Rightarrow> None
      | Some st \<Rightarrow> removeAll_idx now (rev (sort (snd st))) (fst st))"

definition purgeTrails :: "road \<Rightarrow> int \<Rightarrow> road" where
  "purgeTrails r currentTime =
     r\<lparr>trails := filter (\<lambda>expiration. expiration > currentTime) (trails r),
       completedCars := filter (\<lambda>c. expirationTime c > currentTime) (completedCars r)\<rparr>"

definition getCarsPerSecond :: "road \<Rightarrow> real" where
  "getCarsPerSecond r =
     (let totCars = length (trails r); seconds = real_of_int CAR_TRAIL_LIFESPAN / 1000
      in real totCars / seconds)"

section \<open>Metrics\<close>

definition getFairness :: "road \<Rightarrow> real" where
  "getFairness r =
     (if length (completedCars r) < 2 then 1
      else
        let times = map (\<lambda>c. real_of_int (travelTime c)) (completedCars r);
            mean = foldl (\<lambda>s t. s + t) 0 times / real (length times)
        in if mean = 0 then 1
           else
             let squaredDiffs = map (\<lambda>t. (t - mean) ^ 2) times;
                 variance = foldl (\<lambda>s d. s + d) 0 squaredDiffs / real (length times);
                 stdDev = sqrt variance;
                 cv = stdDev / mean
             in 1 / (1 + cv))"

section \<open>Invariants and auxiliary notions\<close>

text \<open>
  Every lane has \<open>ROAD_WIDTH\<close> cells, as the constructor builds them.
\<close>

definition wfGrid :: "road \<Rightarrow> bool" where
  "wfGrid r = (\<forall>lane\<in>set (roadSpace r). length lane = ROAD_WIDTH)"

text \<open>
  A listed car is well placed: its recorded lane and position lie on the grid, the
  cell there holds its reference, its speed is not negative, and it is not ahead of
  the cell that its travelled distance asks for.
\<close>

definition carOk :: "road \<Rightarrow> nat \<Rightarrow> bool" where
  "carOk r i =
     (laneNumber (heap r i) < length (roadSpace r) \<and> lanePosX (heap r i) < ROAD_WIDTH
      \<and> roadSpace r ! laneNumber (heap r i) ! lanePosX (heap r i) = CarRef i
      \<and> 0 \<le> speed (heap r i) \<and> int (lanePosX (heap r i)) \<le> desiredLaneX r i)"

text \<open>Every reference in the grid is that of a listed car, at its recorded place.\<close>

definition refsOk :: "road \<Rightarrow> bool" where
  "refsOk r =
     (\<forall>l x i. l < length (roadSpace r) \<and> x < ROAD_WIDTH \<and> roadSpace r ! l ! x = CarRef i \<longrightarrow>
        i \<in> set (cars r) \<and> laneNumber (heap r i) = l \<and> lanePosX (heap r i) = x)"

text \<open>
  What every road of the program satisfies, whatever the clock does: lanes of
  \<open>ROAD_WIDTH\<close> cells, no car listed twice, a space size other than 0 (the quotient
  by 0 is not a number of this model), every listed car's recorded place on the
  grid, and every reference in the grid that of a listed car at its recorded place.
  It does not say that the cell at a listed car's recorded place holds the car's
  reference.
\<close>

definition roadOk :: "road \<Rightarrow> bool" where
  "roadOk r =
     (wfGrid r \<and> distinct (cars r) \<and> spaceSize r \<noteq> 0
      \<and> (\<forall>i\<in>set (cars r). laneNumber (heap r i) < length (roadSpace r)
                               \<and> lanePosX (heap r i) < ROAD_WIDTH)
      \<and> refsOk r)"

text \<open>
  A step that leaves the grid, the car list, the space size and every car's recorded
  place alone.
\<close>

definition samePlaces :: "road \<Rightarrow> road \<Rightarrow> bool" where
  "samePlaces r r' =
     (roadSpace r' = roadSpace r \<and> cars r' = cars r \<and> spaceSize r' = spaceSize r
      \<and> (\<forall>j. laneNumber (heap r' j) = laneNumber (heap r j)
             \<and> lanePosX (heap r' j) = lanePosX (heap r j)))"

text \<open>
  The grid invariant of the specification, with what keeps it along a run: lanes of
  \<open>ROAD_WIDTH\<close> cells, no car listed twice, a positive space size, every listed car
  well placed, and every reference in the grid that of a listed car at its recorded
  place.
\<close>

definition roadInv :: "road \<Rightarrow> bool" where
  "roadInv r =
     (wfGrid r \<and> distinct (cars r) \<and> 0 < spaceSize r
      \<and> (\<forall>i\<in>set (cars r). carOk r i) \<and> refsOk r)"

text \<open>The clock value \<open>now\<close> is not earlier than any car's last drive.\<close>

definition clockOk :: "road \<Rightarrow> int \<Rightarrow> bool" where
  "clockOk r now = (\<forall>i\<in>set (cars r). \<forall>t. lastMoved (heap r i) = Some t \<longrightarrow> t \<le> now)"

text \<open>
  A step that leaves the grid, the car list and every car's place alone, lets no
  distance shrink, keeps speeds non-negative and stamps cars with \<open>now\<close> only.
\<close>

definition fieldStep :: "int \<Rightarrow> road \<Rightarrow> road \<Rightarrow> bool" where
  "fieldStep now r r' =
     (roadSpace r' = roadSpace r \<and> cars r' = cars r \<and> spaceSize r' = spaceSize r
      \<and> (\<forall>j. laneNumber (heap r' j) = laneNumber (heap r j)
             \<and> lanePosX (heap r' j) = lanePosX (heap r j)
             \<and> distance (heap r j) \<le> distance (heap r' j)
             \<and> (0 \<le> speed (heap r j) \<longrightarrow> 0 \<le> speed (heap r' j))
             \<and> (lastMoved (heap r' j) = lastMoved (heap r j) \<or> lastMoved (heap r' j) = Some now)))"

text \<open>
  The road after a successful \<open>setCarPos\<close>: the old cell cleared, the new cell
  holding the reference, the car's place updated.
\<close>

definition moved :: "road \<Rightarrow> nat \<Rightarrow> nat \<Rightarrow> nat \<Rightarrow> road" where
  "moved r i l' x' =
     updCar (r\<lparr>roadSpace := setCell (setCell (roadSpace r) (laneNumber (heap r i))
                                  (lanePosX (heap r i)) Empty) l' x' (CarRef i)\<rparr>) i
       (\<lambda>c. setLanePos c l' x')"

text \<open>The road after the alerts that \<open>setCarPos\<close> sends for a change of lane.\<close>

definition alerted :: "road \<Rightarrow> nat \<Rightarrow> nat \<Rightarrow> road" where
  "alerted r i lane =
     (if laneNumber (heap r i) \<noteq> lane then updCar (alertRearDriver r i lane) i alertMerge else r)"

text \<open>
  The value of \<open>safeLaneX\<close> in \<open>driveCar\<close>: the desired cell, clamped to the space
  that \<open>getDistance\<close> reports ahead (\<open>ROAD_WIDTH\<close> for an error code).
\<close>

definition safeLaneX :: "road \<Rightarrow> nat \<Rightarrow> int" where
  "safeLaneX r i =
     (let c = heap r i;
          d = getDistance r (laneNumber c) (lanePosX c) SAll;
          availableSpace = (if d < 0 then int ROAD_WIDTH else d)
      in min (desiredLaneX r i) (int (lanePosX c) + availableSpace))"

definition carFree :: "cell list list \<Rightarrow> bool" where
  "carFree rs = (\<forall>l<length rs. \<forall>x<length (rs ! l). \<forall>i. rs ! l ! x \<noteq> CarRef i)"

text \<open>
  The roads that the program can be in between two calls: a constructed road
  (with a space size other than 0);
  \<open>addCar\<close> of a car object that is not on the road; a tick of \<open>driveCars\<close> at any
  clock value; \<open>merge\<close> of a car of the road; the purge timer at any clock value.
\<close>

inductive reachable :: "road \<Rightarrow> bool" where
  construct: "newRoad lanes blocked sz h = Some r \<Longrightarrow> sz \<noteq> 0 \<Longrightarrow> reachable r"
| add: "reachable r \<Longrightarrow> i \<notin> set (cars r) \<Longrightarrow>
        reachable (addCar (r\<lparr>heap := (heap r)(i := c)\<rparr>) i k now)"
| tick: "reachable r \<Longrightarrow> driveCars r now = Some r' \<Longrightarrow> reachable r'"
| mergeCar: "reachable r \<Longrightarrow> i \<in> set (cars r) \<Longrightarrow> merge r i = Some r' \<Longrightarrow> reachable r'"
| purge: "reachable r \<Longrightarrow> reachable (purgeTrails r now)"

section \<open>Notions of the specification and concrete roads\<close>

subsection \<open>Fairness\<close>

text \<open>
  The specification's words for the fairness score: the mean and the population
  standard deviation of the travel times of the completion records.
\<close>

definition travelTimes :: "road \<Rightarrow> real list" where
  "travelTimes r = map (\<lambda>c. real_of_int (travelTime c)) (completedCars r)"

definition specMean :: "real list \<Rightarrow> real" where
  "specMean ts = sum_list ts / real (length ts)"

definition specStdDev :: "real list \<Rightarrow> real" where
  "specStdDev ts = sqrt (sum_list (map (\<lambda>t. (t - specMean ts)\<^sup>2) ts) / real (length ts))"

text \<open>A road without lanes that has seen two cars leave, after 1 ms and after 3 ms.\<close>

definition fairRoad :: road where
  "fairRoad =
     \<lparr> roadSpace = [], cars = [], blockedLanes = 0, trails = [10001, 10003],
       completedCars = [\<lparr> c_startLane = 0, travelTime = 1, expirationTime = 10001 \<rparr>,
                        \<lparr> c_startLane = 1, travelTime = 3, expirationTime = 10003 \<rparr>],
       spaceSize = 15, heap = (\<lambda>_. newCar 0 0 0 0) \<rparr>"

text \<open>
  The records that have not expired at the clock value \<open>now\<close>: those that
  \<open>purgeTrails\<close> would keep then.
\<close>

definition unexpired :: "int \<Rightarrow> road \<Rightarrow> completed list" where
  "unexpired now r = filter (\<lambda>c. expirationTime c > now) (completedCars r)"

text \<open>
  A road that has seen two cars leave at clock values 3 ms and 1 ms earlier than
  the clock values of their \<open>addCar\<close>.
\<close>

definition lateRoad :: road where
  "lateRoad =
     \<lparr> roadSpace = [], cars = [], blockedLanes = 0, trails = [9997, 9999],
       completedCars = [\<lparr> c_startLane = 0, travelTime = - 3, expirationTime = 9997 \<rparr>,
                        \<lparr> c_startLane = 1, travelTime = - 1, expirationTime = 9999 \<rparr>],
       spaceSize = 15, heap = (\<lambda>_. newCar 0 0 0 0) \<rparr>"


subsection \<open>A two-lane road\<close>

text \<open>
  The car objects of the examples, \<open>new Car(0.9, 1, 0.5, 0)\<close>, and the road of the
  default simulation, \<open>new Road(2, 1, 15)\<close>: lane 1 is blocked from cell 40 on.
\<close>

definition car0 :: car where
  "car0 = newCar (9 / 10) 1 (1 / 2) 0"

definition emptyRoad :: road where
  "emptyRoad =
     \<lparr> roadSpace = [replicate 50 Empty, replicate 40 Empty @ replicate 10 Blockage],
       cars = [], blockedLanes = 1, trails = [], completedCars = [], spaceSize = 15,
       heap = (\<lambda>_. car0) \<rparr>"



subsection \<open>A road with three cars\<close>

text \<open>
  The two-lane road with car 2 at cell 3 and car 3 at cell 5 of lane 0, and car 1 at
  cell 5 of lane 1. Every car has travelled 100 feet.
\<close>

definition crowdedHeap :: "nat \<Rightarrow> car" where
  "crowdedHeap = (\<lambda>_. car0)
     (1 := car0\<lparr>laneNumber := 1, lanePosX := 5, distance := 100\<rparr>,
      2 := car0\<lparr>laneNumber := 0, lanePosX := 3, distance := 100\<rparr>,
      3 := car0\<lparr>laneNumber := 0, lanePosX := 5, distance := 100\<rparr>)"

definition crowdedRoad :: road where
  "crowdedRoad =
     \<lparr> roadSpace = [(replicate 50 Empty)[3 := CarRef 2, 5 := CarRef 3],
                    (replicate 40 Empty @ replicate 10 Blockage)[5 := CarRef 1]],
       cars = [1, 2, 3], blockedLanes = 1, trails = [], completedCars = [],
       spaceSize = 15, heap = crowdedHeap \<rparr>"


subsection \<open>A road with two cars\<close>

text \<open>
  The two-lane road with car 2 at cell 3 of lane 0 and car 1 at cell 5 of lane 1;
  \<open>pairRoadFull\<close> is the same road after car 2 has let one car in.
\<close>

definition pairHeap :: "nat \<Rightarrow> car" where
  "pairHeap = (\<lambda>_. car0)
     (1 := car0\<lparr>laneNumber := 1, lanePosX := 5, distance := 100\<rparr>,
      2 := car0\<lparr>laneNumber := 0, lanePosX := 3, distance := 100\<rparr>)"

definition pairRoad :: road where
  "pairRoad =
     \<lparr> roadSpace = [(replicate 50 Empty)[3 := CarRef 2],
                    (replicate 40 Empty @ replicate 10 Blockage)[5 := CarRef 1]],
       cars = [1, 2], blockedLanes = 1, trails = [], completedCars = [],
       spaceSize = 15, heap = pairHeap \<rparr>"

definition pairRoadFull :: road where
  "pairRoadFull =
     pairRoad\<lparr>heap := (\<lambda>j. (heap pairRoad j)\<lparr>carsLetIn := 1,
                                 cooperation := cooperation (heap pairRoad j)\<rparr>)\<rparr>"

subsection \<open>Rubbernecking\<close>

text \<open>
  The specification's words for the rubbernecking slowdown: an adjustment that is
  \<open>peak\<close> at the zone's start and falls linearly to zero at the zone's end.
\<close>

definition linearFade :: "real \<Rightarrow> nat \<Rightarrow> real" where
  "linearFade peak x =
     peak * (1 - (real x - real BLOCK_START) / real RUBBERNECK_ZONE_LENGTH)"


text \<open>The two-lane road with one car in the rubbernecking zone, at cell 44 of lane 0.\<close>

definition zoneRoad :: road where
  "zoneRoad =
     \<lparr> roadSpace = [(replicate 50 Empty)[44 := CarRef 7],
                    replicate 40 Empty @ replicate 10 Blockage],
       cars = [7], blockedLanes = 1, trails = [], completedCars = [], spaceSize = 15,
       heap = (\<lambda>_. car0)(7 := car0\<lparr>laneNumber := 0, lanePosX := 44, distance := 700\<rparr>) \<rparr>"


subsection \<open>A car about to merge\<close>

text \<open>
  The two-lane road with car 7 at cell 36 of the blocked lane 1, three cells before
  the blockage, last driven at the clock value 1000. \<open>mergeRoadReady\<close> is the road
  after the preparing part of its drive at the clock value 1200: it has braked to a
  halt, entered the Merge state and set its indicator.
\<close>

definition mergeRoad :: road where
  "mergeRoad =
     \<lparr> roadSpace = [replicate 50 Empty,
                    (replicate 40 Empty @ replicate 10 Blockage)[36 := CarRef 7]],
       cars = [7], blockedLanes = 1, trails = [], completedCars = [], spaceSize = 15,
       heap = (\<lambda>_. car0)(7 := car0\<lparr>laneNumber := 1, lanePosX := 36, distance := 560,
                                     lastMoved := Some 1000\<rparr>) \<rparr>"

definition mergeRoadReady :: road where
  "mergeRoadReady =
     mergeRoad\<lparr>heap := (\<lambda>_. car0)(7 := car0\<lparr>laneNumber := 1, lanePosX := 36,
                 state := Merge, speed := 0, indicator := True, lastMoved := Some 1200,
                 distance := 2866 / 5\<rparr>)\<rparr>"


subsection \<open>The open-space survey\<close>

text \<open>
  The value of \<open>desiredSpaces\<close> in \<open>canMerge\<close>, given the average speed of the left
  lane: the desired merge space under the urgency, clamped to 2 in near-stopped
  traffic.
\<close>

definition desiredMergeSpaces :: "road \<Rightarrow> nat \<Rightarrow> real \<Rightarrow> real" where
  "desiredMergeSpaces r i leftSpeed =
     (let desiredSpaces0 = getDesiredMergeSpace (heap r i) (Some r) (getMergeUrgency r i)
      in if leftSpeed \<ge> 0 \<and> leftSpeed \<le> 1 \<and> desiredSpaces0 > 2 then 2 else desiredSpaces0)"

text \<open>
  The specification's words for the three quantities, for the left lane \<open>left\<close> and the
  car's position \<open>x\<close>: the indicator of an empty beside cell, the contiguous empty
  run strictly ahead of the beside cell and the one strictly behind it; a non-empty
  beside cell makes all three zero.
\<close>

definition specBeside :: "cell list \<Rightarrow> nat \<Rightarrow> int" where
  "specBeside left x = (if laneGet left x = Some Empty then 1 else 0)"

definition specAhead :: "cell list \<Rightarrow> nat \<Rightarrow> int" where
  "specAhead left x =
     (if specBeside left x = 0 then 0
      else int (length (takeWhile (\<lambda>c. c = Empty) (drop (x + 1) left))))"

definition specBehind :: "cell list \<Rightarrow> nat \<Rightarrow> int" where
  "specBehind left x =
     (if specBeside left x = 0 then 0
      else int (length (takeWhile (\<lambda>c. c = Empty) (rev (take x left)))))"

text \<open>
  The three quantities as the code computes them. The beside indicator is also 0
  for a car in the last cell of its lane; the run ahead is the sentinel 100 when no
  cell ahead is occupied; the run behind starts at the beside cell itself and never
  counts cell 0.
\<close>

definition surveyBeside :: "cell list \<Rightarrow> nat \<Rightarrow> int" where
  "surveyBeside left x = (if x + 1 < length left \<and> left ! x = Empty then 1 else 0)"

definition surveyAhead :: "cell list \<Rightarrow> nat \<Rightarrow> int" where
  "surveyAhead left x =
     (if surveyBeside left x = 0 then 0
      else if list_all (\<lambda>c. c = Empty) (drop (x + 1) left) then 100
      else int (length (takeWhile (\<lambda>c. c = Empty) (drop (x + 1) left))))"

definition surveyBehind :: "cell list \<Rightarrow> nat \<Rightarrow> int" where
  "surveyBehind left x =
     (if surveyBeside left x = 0 then 0
      else int (length (takeWhile (\<lambda>c. c = Empty) (rev (drop 1 (take (x + 1) left))))))"

text \<open>
  The two-lane road with cars 2 and 3 at cells 37 and 40 of lane 0 and car 7 at cell
  38 of lane 1.
\<close>

definition gapLane0 :: "cell list" where
  "gapLane0 = (replicate 50 Empty)[37 := CarRef 2, 40 := CarRef 3]"

definition gapRoad :: road where
  "gapRoad =
     \<lparr> roadSpace = [gapLane0,
                    (replicate 40 Empty @ replicate 10 Blockage)[38 := CarRef 7]],
       cars = [2, 3, 7], blockedLanes = 1, trails = [], completedCars = [], spaceSize = 15,
       heap = (\<lambda>_. car0)
         (2 := car0\<lparr>laneNumber := 0, lanePosX := 37, distance := 600\<rparr>,
          3 := car0\<lparr>laneNumber := 0, lanePosX := 40, distance := 700\<rparr>,
          7 := car0\<lparr>laneNumber := 1, lanePosX := 38, distance := 600\<rparr>) \<rparr>"


subsection \<open>Runs of the default simulation\<close>

text \<open>
  A run of the program on the road \<open>new Road(2, 1, 15)\<close> with three new cars
  \<open>new Car(0.9, 1, 0.5, 0)\<close>, the objects 3, 5 and 7, all put into lane 0: car 3 is
  added at the clock value 500 and driven by the ticks at 1000 and 4600; car 5 is
  added at 4600 and both are driven by the ticks at 4600, 7600 and 8400; car 7 is
  added at 8400. \<open>stepBackRun\<close> continues with one more tick, which reads the clock
  value 4800: the clock has been set back.
\<close>

definition forwardRun :: "road option" where
  "forwardRun =
     Option.bind (newRoad 2 1 15 (\<lambda>_. car0)) (\<lambda>r0.
     Option.bind (driveCars (addCar r0 3 0 500) 1000) (\<lambda>r1.
     Option.bind (driveCars r1 4600) (\<lambda>r2.
     Option.bind (driveCars (addCar r2 5 0 4600) 4600) (\<lambda>r3.
     Option.bind (driveCars r3 7600) (\<lambda>r4.
     Option.bind (driveCars r4 8400) (\<lambda>r5.
     Some (addCar r5 7 0 8400)))))))"

definition stepBackRun :: "road option" where
  "stepBackRun = Option.bind forwardRun (\<lambda>r. driveCars r 4800)"

text \<open>
  The road that \<open>forwardRun\<close> ends in: car 7 at cell 0, car 5 at cell 15 and car 3 at
  cell 31 of lane 0, cars 3 and 5 last driven at 8400, car 7 not driven yet.
\<close>

definition jamRoad :: road where
  "jamRoad =
     \<lparr> roadSpace = [(replicate 50 Empty)[0 := CarRef 7, 15 := CarRef 5, 31 := CarRef 3],
                    replicate 40 Empty @ replicate 10 Blockage],
       cars = [3, 5, 7], blockedLanes = 1, trails = [], completedCars = [], spaceSize = 15,
       heap = (\<lambda>_. car0)
         (3 := car0\<lparr>lanePosX := 31, distance := 2442 / 5, lastMoved := Some 8400,
                    startTime := Some 500\<rparr>,
          5 := car0\<lparr>lanePosX := 15, distance := 1242 / 5, lastMoved := Some 8400,
                    startTime := Some 4600\<rparr>,
          7 := car0\<lparr>startTime := Some 8400\<rparr>) \<rparr>"

section \<open>Keeping the grid invariant\<close>

subsection \<open>setCell\<close>

lemma length_setCell [simp]: "length (setCell rs l x v) = length rs"
  by (simp add: setCell_def)

lemma length_setCell_nth [simp]: "length (setCell rs l x v ! l') = length (rs ! l')"
  by (cases "l = l'"; cases "l < length rs") (simp_all add: setCell_def list_update_beyond)

lemma setCell_nth:
  "setCell rs l x v ! l' ! x' =
     (if l' = l \<and> l < length rs \<and> x' = x \<and> x < length (rs ! l) then v else rs ! l' ! x')"
  by (cases "l = l'"; cases "l < length rs"; cases "x = x'"; cases "x < length (rs ! l)")
     (simp_all add: setCell_def list_update_beyond)

lemma wfGrid_nth: "wfGrid r \<Longrightarrow> l < length (roadSpace r) \<Longrightarrow> length (roadSpace r ! l) = ROAD_WIDTH"
  by (simp add: wfGrid_def)

lemma wfGrid_iff: "wfGrid r = (\<forall>l<length (roadSpace r). length (roadSpace r ! l) = ROAD_WIDTH)"
  by (simp add: wfGrid_def all_set_conv_all_nth)

lemma wfGrid_setCell:
  "wfGrid r \<Longrightarrow> roadSpace r' = setCell (roadSpace r) l x v \<Longrightarrow> wfGrid r'"
  by (simp add: wfGrid_iff)

subsection \<open>Steps that only change fields of cars\<close>

lemma fieldStep_refl: "fieldStep now r r"
  by (simp add: fieldStep_def)

lemma fieldStep_trans: "fieldStep now r r' \<Longrightarrow> fieldStep now r' r'' \<Longrightarrow> fieldStep now r r''"
  unfolding fieldStep_def by (metis order_trans)

lemma fieldStep_updCar:
  assumes "laneNumber (f (heap r i)) = laneNumber (heap r i)"
      and "lanePosX (f (heap r i)) = lanePosX (heap r i)"
      and "distance (heap r i) \<le> distance (f (heap r i))"
      and "0 \<le> speed (heap r i) \<longrightarrow> 0 \<le> speed (f (heap r i))"
      and "lastMoved (f (heap r i)) = lastMoved (heap r i) \<or> lastMoved (f (heap r i)) = Some now"
  shows "fieldStep now r (updCar r i f)"
  using assms by (simp add: fieldStep_def updCar_def)

lemma desiredLaneX_mono:
  assumes "0 < spaceSize r" "spaceSize r' = spaceSize r" "distance (heap r i) \<le> distance (heap r' i)"
  shows "desiredLaneX r i \<le> desiredLaneX r' i"
proof -
  have "distance (heap r i) / spaceSize r \<le> distance (heap r' i) / spaceSize r"
    using assms by (simp add: divide_right_mono)
  then have "\<lfloor>distance (heap r i) / spaceSize r\<rfloor> \<le> \<lfloor>distance (heap r' i) / spaceSize r\<rfloor>"
    (is "?a \<le> ?b") by (rule floor_mono)
  then have "(if ?a - 1 < 0 then 0 else ?a - 1) \<le> (if ?b - 1 < 0 then 0 else ?b - 1)"
    by (simp only: split: if_split) linarith
  then show ?thesis unfolding desiredLaneX_def Let_def assms(2) .
qed

lemma carOk_fieldStep:
  assumes "fieldStep now r r'" "0 < spaceSize r" "carOk r i"
  shows "carOk r' i"
proof -
  have d: "desiredLaneX r i \<le> desiredLaneX r' i"
    using assms by (intro desiredLaneX_mono) (simp_all add: fieldStep_def)
  show ?thesis
    using assms d unfolding carOk_def fieldStep_def by (metis order_trans)
qed

lemma roadInv_fieldStep:
  assumes "roadInv r" "fieldStep now r r'"
  shows "roadInv r'"
proof -
  have g: "roadSpace r' = roadSpace r" "cars r' = cars r" "spaceSize r' = spaceSize r"
    using assms(2) by (simp_all add: fieldStep_def)
  have pos: "\<And>j. laneNumber (heap r' j) = laneNumber (heap r j) \<and> lanePosX (heap r' j) = lanePosX (heap r j)"
    using assms(2) by (simp add: fieldStep_def)
  have "wfGrid r'" using assms(1) g by (simp add: roadInv_def wfGrid_def)
  moreover have "\<forall>i\<in>set (cars r'). carOk r' i"
    using assms carOk_fieldStep[OF assms(2)] g by (simp add: roadInv_def)
  moreover have "refsOk r'"
    using assms(1) g pos by (simp add: roadInv_def refsOk_def)
  ultimately show ?thesis using assms(1) g by (simp add: roadInv_def)
qed

lemma clockOk_fieldStep:
  assumes "clockOk r now" "fieldStep now r r'"
  shows "clockOk r' now"
  using assms unfolding clockOk_def fieldStep_def
  by (metis option.inject order_refl)

lemma adjustSpeedBy_fields [simp]:
  "laneNumber (adjustSpeedBy c a) = laneNumber c"
  "lanePosX (adjustSpeedBy c a) = lanePosX c"
  "distance (adjustSpeedBy c a) = distance c"
  "lastMoved (adjustSpeedBy c a) = lastMoved c"
  "state (adjustSpeedBy c a) = state c"
  "aggressiveness (adjustSpeedBy c a) = aggressiveness c"
  by (simp_all add: adjustSpeedBy_def Let_def)

lemma adjustSpeedBy_speed_nonneg: "0 \<le> speed (adjustSpeedBy c a)"
  by (simp add: adjustSpeedBy_def Let_def MAX_SPEED_def)

lemma alertMerge_fields [simp]:
  "laneNumber (alertMerge c) = laneNumber c"
  "lanePosX (alertMerge c) = lanePosX c"
  "distance (alertMerge c) = distance c"
  "lastMoved (alertMerge c) = lastMoved c"
  "speed (alertMerge c) = speed c"
  "state (alertMerge c) = state c"
  "aggressiveness (alertMerge c) = aggressiveness c"
  by (simp_all add: alertMerge_def)

lemma fieldStep_alertRearDriver: "fieldStep now r (alertRearDriver r i lane)"
  by (auto simp: alertRearDriver_def Let_def fieldStep_refl split: option.splits
      intro!: fieldStep_updCar)

lemma fieldStep_effectMergeState: "fieldStep now r (effectMergeState r i)"
  by (auto simp: effectMergeState_def Let_def fieldStep_refl intro!: fieldStep_updCar)

lemma getDistance_nonneg_lane:
  "0 \<le> getDistance r lane x target \<Longrightarrow> lane < length (roadSpace r)"
  by (auto simp: getDistance_def getLaneData_def split: if_splits)

lemma getLeft10AverageSpeed_Some:
  "laneNumber (heap r i) \<le> length (roadSpace r) \<Longrightarrow> \<exists>v. getLeft10AverageSpeed r i = Some v"
  by (auto simp: getLeft10AverageSpeed_def getLaneData_def Let_def)

lemma followingDifference_Some:
  "laneNumber (heap r i) \<le> length (roadSpace r) \<Longrightarrow> \<exists>v. followingDifference r i d = Some v"
  using getLeft10AverageSpeed_Some[of r i]
  by (auto simp: followingDifference_def Let_def)

lemma effectSpeed_Some: "\<exists>r'. effectSpeed r i = Some r'"
proof (cases "getDistance r (laneNumber (heap r i)) (lanePosX (heap r i)) SAll < 0")
  case True
  then show ?thesis by (simp add: effectSpeed_def Let_def)
next
  case False
  then have "laneNumber (heap r i) < length (roadSpace r)"
    by (intro getDistance_nonneg_lane[where x = "lanePosX (heap r i)" and target = SAll]) simp
  then obtain v where
    "followingDifference r i (getDistance r (laneNumber (heap r i)) (lanePosX (heap r i)) SAll) = Some v"
    using followingDifference_Some[of r i] by (meson less_imp_le)
  with False show ?thesis by (simp add: effectSpeed_def Let_def)
qed

lemma fieldStep_effectSpeed: "effectSpeed r i = Some r' \<Longrightarrow> fieldStep now r r'"
  by (auto simp: effectSpeed_def Let_def fieldStep_refl adjustSpeedBy_speed_nonneg
      split: if_splits option.splits intro!: fieldStep_updCar)

lemma drivePrepare_Some: "\<exists>r5. drivePrepare r i now t = Some r5"
proof -
  obtain r2 where "effectSpeed (updCar r i (\<lambda>c. c\<lparr>distance := distance c + speed c * (of_int (now - t) / 1000)\<rparr>)) i = Some r2"
    using effectSpeed_Some by blast
  then show ?thesis by (simp add: drivePrepare_def Let_def)
qed

lemma fieldStep_drivePrepare:
  assumes "drivePrepare r i now t = Some r5" "0 \<le> speed (heap r i)" "t \<le> now"
  shows "fieldStep now r r5"
proof -
  let ?r1 = "updCar r i (\<lambda>c. c\<lparr>distance := distance c + speed c * (of_int (now - t) / 1000)\<rparr>)"
  obtain r2 where r2: "effectSpeed ?r1 i = Some r2"
    using effectSpeed_Some by blast
  let ?r3 = "effectMergeState r2 i"
  let ?r4 = "updCar ?r3 i (\<lambda>c. c\<lparr>lastMoved := Some now\<rparr>)"
  have r5: "r5 = updCar ?r4 i (\<lambda>c. c\<lparr>indicator := (state c = Merge)\<rparr>)"
    using assms(1) r2 by (simp add: drivePrepare_def Let_def)
  have "0 \<le> speed (heap r i) * (of_int (now - t) / 1000)"
    using assms(2,3) by simp
  then have s1: "fieldStep now r ?r1"
    by (intro fieldStep_updCar) simp_all
  have s2: "fieldStep now ?r1 r2" using r2 by (rule fieldStep_effectSpeed)
  have s3: "fieldStep now r2 ?r3" by (rule fieldStep_effectMergeState)
  have s4: "fieldStep now ?r3 ?r4" by (intro fieldStep_updCar) simp_all
  have s5: "fieldStep now ?r4 r5" unfolding r5 by (intro fieldStep_updCar) simp_all
  show ?thesis
    using s1 s2 s3 s4 s5 fieldStep_trans by blast
qed

lemma canMerge_Some:
  "laneNumber (heap r i) \<le> length (roadSpace r) \<Longrightarrow> \<exists>b. canMerge r i = Some b"
  using getLeft10AverageSpeed_Some[of r i]
  by (auto simp: canMerge_def Let_def split: option.splits)

subsection \<open>Moving a car to a free cell\<close>

lemma refsOkD:
  "refsOk r \<Longrightarrow> l < length (roadSpace r) \<Longrightarrow> x < ROAD_WIDTH \<Longrightarrow> roadSpace r ! l ! x = CarRef i
   \<Longrightarrow> i \<in> set (cars r) \<and> laneNumber (heap r i) = l \<and> lanePosX (heap r i) = x"
  unfolding refsOk_def by blast

lemma moved_simps [simp]:
  "cars (moved r i l' x') = cars r"
  "spaceSize (moved r i l' x') = spaceSize r"
  "length (roadSpace (moved r i l' x')) = length (roadSpace r)"
  "heap (moved r i l' x') j = (if j = i then setLanePos (heap r i) l' x' else heap r j)"
  by (simp_all add: moved_def updCar_def)

lemma moved_cell:
  assumes "wfGrid r" "laneNumber (heap r i) < length (roadSpace r)" "lanePosX (heap r i) < ROAD_WIDTH"
      and "l' < length (roadSpace r)" "x' < ROAD_WIDTH"
  shows "roadSpace (moved r i l' x') ! a ! b =
           (if a = l' \<and> b = x' then CarRef i
            else if a = laneNumber (heap r i) \<and> b = lanePosX (heap r i) then Empty
            else roadSpace r ! a ! b)"
  using assms by (simp add: moved_def updCar_def setCell_nth wfGrid_nth)

lemma desiredLaneX_moved [simp]: "desiredLaneX (moved r i l' x') j = desiredLaneX r j"
  by (simp add: desiredLaneX_def setLanePos_def)

lemma roadInv_moved:
  assumes inv: "roadInv r" and i: "i \<in> set (cars r)"
      and l': "l' < length (roadSpace r)" and x': "x' < ROAD_WIDTH"
      and free: "roadSpace r ! l' ! x' = Empty"
      and des: "int x' \<le> desiredLaneX r i"
  shows "roadInv (moved r i l' x')"
proof -
  let ?m = "moved r i l' x'"
  have wf: "wfGrid r" and ok: "\<And>j. j \<in> set (cars r) \<Longrightarrow> carOk r j" and refs: "refsOk r"
    using inv by (simp_all add: roadInv_def)
  have oki: "carOk r i" using ok i by simp
  have li: "laneNumber (heap r i) < length (roadSpace r)" and xi: "lanePosX (heap r i) < ROAD_WIDTH"
    and ci: "roadSpace r ! laneNumber (heap r i) ! lanePosX (heap r i) = CarRef i"
    using oki by (simp_all add: carOk_def)
  note cell = moved_cell[OF wf li xi l' x']
  have "wfGrid ?m"
    using wf by (simp add: wfGrid_iff moved_def updCar_def)
  moreover have "carOk ?m j" if j: "j \<in> set (cars r)" for j
  proof (cases "j = i")
    case True
    then show ?thesis
      using oki l' x' des by (simp add: carOk_def cell setLanePos_def)
  next
    case False
    have okj: "carOk r j" using ok j by simp
    then have cj: "roadSpace r ! laneNumber (heap r j) ! lanePosX (heap r j) = CarRef j"
      by (simp add: carOk_def)
    have n1: "\<not> (laneNumber (heap r j) = l' \<and> lanePosX (heap r j) = x')"
      using cj free by auto
    have n2: "\<not> (laneNumber (heap r j) = laneNumber (heap r i) \<and> lanePosX (heap r j) = lanePosX (heap r i))"
      using cj ci False by auto
    show ?thesis
      using okj False n1 n2 by (simp add: carOk_def cell)
  qed
  moreover have "refsOk ?m"
    unfolding refsOk_def
  proof (intro allI impI)
    fix a b j
    assume h: "a < length (roadSpace ?m) \<and> b < ROAD_WIDTH \<and> roadSpace ?m ! a ! b = CarRef j"
    show "j \<in> set (cars ?m) \<and> laneNumber (heap ?m j) = a \<and> lanePosX (heap ?m j) = b"
    proof (cases "a = l' \<and> b = x'")
      case True
      with h have "j = i" by (simp add: cell)
      with True i show ?thesis by (simp add: setLanePos_def)
    next
      case False
      with h have n: "\<not> (a = laneNumber (heap r i) \<and> b = lanePosX (heap r i))"
        and old: "roadSpace r ! a ! b = CarRef j"
        by (auto simp: cell split: if_splits)
      from h have "a < length (roadSpace r)" "b < ROAD_WIDTH" by simp_all
      from refsOkD[OF refs this old]
      have j: "j \<in> set (cars r) \<and> laneNumber (heap r j) = a \<and> lanePosX (heap r j) = b" .
      with n have "j \<noteq> i" by auto
      with j show ?thesis by simp
    qed
  qed
  ultimately show ?thesis using inv by (simp add: roadInv_def)
qed

lemma fieldStep_alerted: "fieldStep now r (alerted r i lane)"
proof (cases "laneNumber (heap r i) \<noteq> lane")
  case True
  have "fieldStep now (alertRearDriver r i lane) (updCar (alertRearDriver r i lane) i alertMerge)"
    by (intro fieldStep_updCar) simp_all
  with fieldStep_alertRearDriver[of now r i lane] True show ?thesis
    unfolding alerted_def using fieldStep_trans by auto
next
  case False
  then show ?thesis by (simp add: alerted_def fieldStep_refl)
qed

lemma alerted_grid [simp]:
  "roadSpace (alerted r i lane) = roadSpace r"
  "cars (alerted r i lane) = cars r"
  "spaceSize (alerted r i lane) = spaceSize r"
  "laneNumber (heap (alerted r i lane) j) = laneNumber (heap r j)"
  "lanePosX (heap (alerted r i lane) j) = lanePosX (heap r j)"
  using fieldStep_alerted[of 0 r i lane] by (simp_all add: fieldStep_def)

lemma setCarPos_out_of_bounds:
  "lane \<ge> length (roadSpace r) \<or> laneX \<ge> ROAD_WIDTH \<Longrightarrow> setCarPos r i lane laneX = (r, - 1)"
  by (auto simp: setCarPos_def Let_def)

lemma setCarPos_unfold:
  "setCarPos r i lane laneX =
     (if lane \<ge> length (roadSpace r) \<or> laneX \<ge> ROAD_WIDTH then (r, - 1)
      else if laneNumber (heap r i) \<ge> length (roadSpace r) \<or> lanePosX (heap r i) \<ge> ROAD_WIDTH
      then (r, - 1)
      else if \<not> isNull (laneGet (setCell (roadSpace r) (laneNumber (heap r i))
                                (lanePosX (heap r i)) Empty ! lane) laneX)
      then ((alerted r i lane)\<lparr>roadSpace := setCell (roadSpace r) (laneNumber (heap r i))
                                              (lanePosX (heap r i)) Empty\<rparr>, - 1)
      else (moved (alerted r i lane) i lane laneX, 0))"
proof -
  have "setCarPos r i lane laneX =
     (if lane \<ge> length (roadSpace r) \<or> laneX \<ge> ROAD_WIDTH then (r, - 1)
      else if laneNumber (heap r i) \<ge> length (roadSpace r) \<or> lanePosX (heap r i) \<ge> ROAD_WIDTH
      then (r, - 1)
      else
        let r1 = alerted r i lane;
            r2 = r1\<lparr>roadSpace := setCell (roadSpace r1) (laneNumber (heap r i))
                                     (lanePosX (heap r i)) Empty\<rparr>
        in if \<not> isNull (laneGet (roadSpace r2 ! lane) laneX) then (r2, - 1)
           else (updCar (r2\<lparr>roadSpace := setCell (roadSpace r2) lane laneX (CarRef i)\<rparr>) i
                   (\<lambda>c. setLanePos c lane laneX), 0))"
    unfolding setCarPos_def alerted_def Let_def by simp
  then show ?thesis
    by (simp add: Let_def moved_def updCar_def)
qed

lemma setCarPos_free:
  assumes wf: "wfGrid r"
      and l': "l' < length (roadSpace r)" and x': "x' < ROAD_WIDTH"
      and li: "laneNumber (heap r i) < length (roadSpace r)"
      and xi: "lanePosX (heap r i) < ROAD_WIDTH"
      and free: "roadSpace r ! l' ! x' = Empty"
  shows "setCarPos r i l' x' = (moved (alerted r i l') i l' x', 0)"
proof -
  have len: "length (roadSpace r ! l') = ROAD_WIDTH" using wf l' by (rule wfGrid_nth)
  have "laneGet (setCell (roadSpace r) (laneNumber (heap r i)) (lanePosX (heap r i)) Empty ! l') x'
          = Some Empty"
    using free x' len by (simp add: laneGet_def setCell_nth)
  then show ?thesis
    using l' x' li xi by (simp add: setCarPos_unfold isNull_def)
qed

lemma clockOk_moved: "clockOk r now \<Longrightarrow> clockOk (moved r i l' x') now"
  by (simp add: clockOk_def setLanePos_def)

lemma setCarPos_free_inv:
  assumes inv: "roadInv r" and i: "i \<in> set (cars r)"
      and l': "l' < length (roadSpace r)" and x': "x' < ROAD_WIDTH"
      and free: "roadSpace r ! l' ! x' = Empty"
      and des: "int x' \<le> desiredLaneX r i"
      and clock: "clockOk r now"
  shows "setCarPos r i l' x' = (moved (alerted r i l') i l' x', 0)"
    and "roadInv (moved (alerted r i l') i l' x')"
    and "clockOk (moved (alerted r i l') i l' x') now"
proof -
  have oki: "carOk r i" using inv i by (simp add: roadInv_def)
  have wf: "wfGrid r" using inv by (simp add: roadInv_def)
  show "setCarPos r i l' x' = (moved (alerted r i l') i l' x', 0)"
    using wf l' x' oki free by (intro setCarPos_free) (simp_all add: carOk_def)
  have inv1: "roadInv (alerted r i l')"
    using inv fieldStep_alerted by (rule roadInv_fieldStep)
  have "desiredLaneX r i \<le> desiredLaneX (alerted r i l') i"
    using inv fieldStep_alerted[of now r i l']
    by (intro desiredLaneX_mono) (simp_all add: roadInv_def fieldStep_def)
  with des have des1: "int x' \<le> desiredLaneX (alerted r i l') i" by simp
  show "roadInv (moved (alerted r i l') i l' x')"
    using inv1 i l' x' free des1 by (intro roadInv_moved) simp_all
  show "clockOk (moved (alerted r i l') i l' x') now"
    by (rule clockOk_moved[OF clockOk_fieldStep[OF clock fieldStep_alerted]])
qed

lemma scanCells_empty_before:
  "k < length cs \<Longrightarrow> d0 + int k < scanCells SAll cs d0 \<Longrightarrow> cs ! k = Empty"
proof (induction cs arbitrary: k d0)
  case Nil
  then show ?case by simp
next
  case (Cons c cs)
  show ?case
  proof (cases "c = Empty")
    case False
    with Cons.prems show ?thesis by simp
  next
    case True
    show ?thesis
    proof (cases k)
      case 0
      with True show ?thesis by simp
    next
      case (Suc k')
      with Cons.prems True have "k' < length cs" "(d0 + 1) + int k' < scanCells SAll cs (d0 + 1)"
        by simp_all
      from Cons.IH[OF this] Suc show ?thesis by simp
    qed
  qed
qed

lemma getDistance_free_ahead:
  assumes "lane < length (roadSpace r)" "x < k" "k < length (roadSpace r ! lane)"
      and "int k \<le> int x + getDistance r lane x SAll"
  shows "roadSpace r ! lane ! k = Empty"
proof -
  let ?cs = "drop (x + 1) (roadSpace r ! lane)"
  have d: "getDistance r lane x SAll = scanCells SAll ?cs 0"
    using assms(1,2,3) by (simp add: getDistance_def getLaneData_def)
  have "k - x - 1 < length ?cs" using assms(2,3) by simp
  moreover have "0 + int (k - x - 1) < scanCells SAll ?cs 0"
    using assms(2,4) d by simp
  ultimately have "?cs ! (k - x - 1) = Empty" by (rule scanCells_empty_before)
  then show ?thesis using assms(2,3) by simp
qed

subsection \<open>merge, drive and driveCar keep the invariant\<close>

lemma fieldStep_cars: "fieldStep now r r' \<Longrightarrow> cars r' = cars r"
  by (simp add: fieldStep_def)

lemma roadInv_carOk: "roadInv r \<Longrightarrow> i \<in> set (cars r) \<Longrightarrow> carOk r i"
  by (simp add: roadInv_def)

lemma carOkD:
  assumes "carOk r i"
  shows "laneNumber (heap r i) < length (roadSpace r)"
    and "lanePosX (heap r i) < ROAD_WIDTH"
    and "roadSpace r ! laneNumber (heap r i) ! lanePosX (heap r i) = CarRef i"
    and "0 \<le> speed (heap r i)"
    and "int (lanePosX (heap r i)) \<le> desiredLaneX r i"
  using assms unfolding carOk_def by blast+

lemma merge_char:
  assumes inv: "roadInv r" and i: "i \<in> set (cars r)"
  shows "merge r i =
           Some (if laneNumber (heap r i) = 0
                    \<or> roadSpace r ! (laneNumber (heap r i) - 1) ! lanePosX (heap r i) \<noteq> Empty
                 then r
                 else moved (alerted r i (laneNumber (heap r i) - 1)) i
                        (laneNumber (heap r i) - 1) (lanePosX (heap r i)))"
proof (cases "laneNumber (heap r i) = 0")
  case True
  then show ?thesis by (simp add: merge_def Let_def)
next
  case False
  have oki: "carOk r i" using inv i by (rule roadInv_carOk)
  have wf: "wfGrid r" using inv by (simp add: roadInv_def)
  let ?l = "laneNumber (heap r i) - 1" and ?x = "lanePosX (heap r i)"
  have l: "?l < length (roadSpace r)" using carOkD(1)[OF oki] by linarith
  have x: "?x < ROAD_WIDTH" using oki by (rule carOkD)
  have len: "length (roadSpace r ! ?l) = ROAD_WIDTH" using wf l by (rule wfGrid_nth)
  have nul: "isNull (laneGet (roadSpace r ! ?l) ?x) = (roadSpace r ! ?l ! ?x = Empty)"
    using x len by (cases "roadSpace r ! ?l ! ?x") (simp_all add: laneGet_def isNull_def)
  show ?thesis
  proof (cases "roadSpace r ! ?l ! ?x = Empty")
    case True
    have "setCarPos r i ?l ?x = (moved (alerted r i ?l) i ?l ?x, 0)"
      using wf l x carOkD(1,2)[OF oki] True by (rule setCarPos_free)
    with False True l nul show ?thesis
      by (simp add: merge_def Let_def getLaneData_def)
  next
    case no: False
    with False l nul show ?thesis
      by (simp add: merge_def Let_def getLaneData_def)
  qed
qed

lemma merge_inv:
  assumes inv: "roadInv r" and i: "i \<in> set (cars r)" and clock: "clockOk r now"
  shows "\<exists>r'. merge r i = Some r' \<and> roadInv r' \<and> clockOk r' now \<and> cars r' = cars r"
proof (cases "laneNumber (heap r i) = 0
               \<or> roadSpace r ! (laneNumber (heap r i) - 1) ! lanePosX (heap r i) \<noteq> Empty")
  case True
  then show ?thesis using merge_char[OF inv i] inv clock by simp
next
  case False
  have oki: "carOk r i" using inv i by (rule roadInv_carOk)
  let ?l = "laneNumber (heap r i) - 1" and ?x = "lanePosX (heap r i)"
  have l: "?l < length (roadSpace r)" using carOkD(1)[OF oki] by linarith
  have x: "?x < ROAD_WIDTH" and des: "int ?x \<le> desiredLaneX r i"
    using oki by (rule carOkD)+
  have free: "roadSpace r ! ?l ! ?x = Empty" using False by simp
  from setCarPos_free_inv(2,3)[OF inv i l x free des clock] False merge_char[OF inv i]
  show ?thesis by simp
qed

lemma drive_inv:
  assumes inv: "roadInv r" and i: "i \<in> set (cars r)" and clock: "clockOk r now"
  shows "\<exists>r1. drive r i now = Some r1 \<and> roadInv r1 \<and> clockOk r1 now \<and> cars r1 = cars r"
proof (cases "lastMoved (heap r i)")
  case None
  have fs: "fieldStep now r (updCar r i (\<lambda>c. c\<lparr>lastMoved := Some now\<rparr>))"
    by (intro fieldStep_updCar) simp_all
  show ?thesis
    using None roadInv_fieldStep[OF inv fs] clockOk_fieldStep[OF clock fs] fieldStep_cars[OF fs]
    by (simp add: drive_def)
next
  case (Some t)
  have oki: "carOk r i" using inv i by (rule roadInv_carOk)
  have t: "t \<le> now" using clock i Some by (simp add: clockOk_def)
  obtain r5 where r5: "drivePrepare r i now t = Some r5"
    using drivePrepare_Some by blast
  have fs: "fieldStep now r r5"
    using r5 carOkD(4)[OF oki] t by (rule fieldStep_drivePrepare)
  note inv5 = roadInv_fieldStep[OF inv fs] and clock5 = clockOk_fieldStep[OF clock fs]
    and cars5 = fieldStep_cars[OF fs]
  have i5: "i \<in> set (cars r5)" using i cars5 by simp
  show ?thesis
  proof (cases "state (heap r5 i) = Merge")
    case False
    with Some r5 inv5 clock5 cars5 show ?thesis by (simp add: drive_def)
  next
    case True
    have "carOk r5 i" using inv5 i5 by (rule roadInv_carOk)
    then have "laneNumber (heap r5 i) \<le> length (roadSpace r5)"
      using carOkD(1) less_imp_le by blast
    then obtain b where b: "canMerge r5 i = Some b" using canMerge_Some by blast
    show ?thesis
    proof (cases b)
      case False
      with Some r5 True b inv5 clock5 cars5 show ?thesis by (simp add: drive_def)
    next
      case yes: True
      from merge_inv[OF inv5 i5 clock5] cars5 Some r5 True b yes show ?thesis
        by (auto simp: drive_def)
    qed
  qed
qed

lemma scanCells_nonneg: "0 \<le> d0 \<Longrightarrow> 0 \<le> scanCells target cs d0"
  by (induction cs arbitrary: d0) simp_all

lemma getDistance_negative:
  assumes "lane < length (roadSpace r)" "getDistance r lane x target < 0"
  shows "length (roadSpace r ! lane) \<le> x + 1"
proof (rule ccontr)
  assume "\<not> length (roadSpace r ! lane) \<le> x + 1"
  then have "getDistance r lane x target = scanCells target (drop (x + 1) (roadSpace r ! lane)) 0"
    using assms(1) by (simp add: getDistance_def getLaneData_def)
  with assms(2) scanCells_nonneg[of 0 target "drop (x + 1) (roadSpace r ! lane)"]
  show False by simp
qed

lemma alerted_same_lane [simp]: "alerted r i (laneNumber (heap r i)) = r"
  by (simp add: alerted_def)

lemma indexOf_member:
  "x \<in> set xs \<Longrightarrow> 0 \<le> indexOf xs x \<and> nat (indexOf xs x) < length xs \<and> xs ! nat (indexOf xs x) = x"
proof (induction xs)
  case Nil
  then show ?case by simp
next
  case (Cons y ys)
  show ?case
  proof (cases "x = y")
    case True
    then show ?thesis by simp
  next
    case False
    with Cons.prems have "x \<in> set ys" by simp
    from Cons.IH[OF this] False show ?thesis
      by (simp add: Let_def nat_add_distrib)
  qed
qed

lemma driveCar_char:
  assumes inv: "roadInv r" and i: "i \<in> set (cars r)" and clock: "clockOk r now"
      and r1: "drive r i now = Some r1"
      and inv1: "roadInv r1" and cars1: "cars r1 = cars r" and clock1: "clockOk r1 now"
  shows "driveCar (r, rem) i now =
           Some (if safeLaneX r1 i = int (lanePosX (heap r1 i)) then (r1, rem)
                 else if int ROAD_WIDTH \<le> safeLaneX r1 i then (r1, rem @ [indexOf (cars r) i])
                 else (moved r1 i (laneNumber (heap r1 i)) (nat (safeLaneX r1 i)), rem))"
    and "safeLaneX r1 i \<noteq> int (lanePosX (heap r1 i)) \<Longrightarrow> safeLaneX r1 i < int ROAD_WIDTH \<Longrightarrow>
           roadInv (moved r1 i (laneNumber (heap r1 i)) (nat (safeLaneX r1 i)))
           \<and> clockOk (moved r1 i (laneNumber (heap r1 i)) (nat (safeLaneX r1 i))) now
           \<and> roadSpace r1 ! laneNumber (heap r1 i) ! nat (safeLaneX r1 i) = Empty
           \<and> setCarPos r1 i (laneNumber (heap r1 i)) (nat (safeLaneX r1 i))
               = (moved r1 i (laneNumber (heap r1 i)) (nat (safeLaneX r1 i)), 0)"
    and "int (lanePosX (heap r1 i)) \<le> safeLaneX r1 i"
proof -
  let ?x = "lanePosX (heap r1 i)" and ?l = "laneNumber (heap r1 i)"
  let ?d = "getDistance r1 ?l ?x SAll"
  let ?avail = "if ?d < 0 then int ROAD_WIDTH else ?d"
  let ?safe = "safeLaneX r1 i"
  have i1: "i \<in> set (cars r1)" using i cars1 by simp
  have oki: "carOk r1 i" using inv1 i1 by (rule roadInv_carOk)
  note ok = carOkD[OF oki]
  have wf: "wfGrid r1" using inv1 by (simp add: roadInv_def)
  have len: "length (roadSpace r1 ! ?l) = ROAD_WIDTH" using wf ok(1) by (rule wfGrid_nth)
  have safe: "?safe = min (desiredLaneX r1 i) (int ?x + ?avail)"
    by (simp add: safeLaneX_def Let_def)
  have avail: "0 \<le> ?avail" by simp
  show ge: "int ?x \<le> ?safe" using ok(5) avail unfolding safe by linarith
  have des_eq: "desiredLaneX r1 i = int ?x \<Longrightarrow> ?safe = int ?x"
    using avail unfolding safe by linarith
  have move: "roadInv (moved r1 i ?l (nat ?safe)) \<and> clockOk (moved r1 i ?l (nat ?safe)) now
         \<and> roadSpace r1 ! ?l ! nat ?safe = Empty
         \<and> setCarPos r1 i ?l (nat ?safe) = (moved r1 i ?l (nat ?safe), 0)"
    if ne: "?safe \<noteq> int ?x" and lt: "?safe < int ROAD_WIDTH"
  proof -
    have gt: "int ?x < ?safe" using ge ne by linarith
    have dnn: "0 \<le> ?d"
    proof (rule ccontr)
      assume "\<not> 0 \<le> ?d"
      then have "length (roadSpace r1 ! ?l) \<le> ?x + 1"
        using ok(1) by (intro getDistance_negative[where target = SAll]) simp_all
      with len gt lt show False by linarith
    qed
    have le: "int (nat ?safe) \<le> int ?x + ?d"
      using dnn gt unfolding safe by (simp split: if_splits)
    have free: "roadSpace r1 ! ?l ! nat ?safe = Empty"
      using ok(1) gt lt len le by (intro getDistance_free_ahead[where x = ?x]) simp_all
    have des: "int (nat ?safe) \<le> desiredLaneX r1 i"
      using gt unfolding safe by simp
    have x': "nat ?safe < ROAD_WIDTH" using lt gt by linarith
    from setCarPos_free_inv[OF inv1 i1 ok(1) x' free des clock1] free
    show ?thesis by simp
  qed
  show "?safe \<noteq> int ?x \<Longrightarrow> ?safe < int ROAD_WIDTH \<Longrightarrow>
           roadInv (moved r1 i ?l (nat ?safe)) \<and> clockOk (moved r1 i ?l (nat ?safe)) now
           \<and> roadSpace r1 ! ?l ! nat ?safe = Empty
           \<and> setCarPos r1 i ?l (nat ?safe) = (moved r1 i ?l (nat ?safe), 0)"
    using move by blast
  have body: "driveCar (r, rem) i now =
     (if desiredLaneX r1 i \<noteq> int ?x then
        if ?safe \<noteq> int ?x then
          if snd (setCarPos r1 i ?l (nat ?safe)) = - 1
          then Some (fst (setCarPos r1 i ?l (nat ?safe)), rem @ [indexOf (cars r) i])
          else Some (fst (setCarPos r1 i ?l (nat ?safe)), rem)
        else Some (r1, rem)
      else Some (r1, rem))"
    using r1 by (simp add: driveCar_def Let_def safeLaneX_def)
  show "driveCar (r, rem) i now =
           Some (if ?safe = int ?x then (r1, rem)
                 else if int ROAD_WIDTH \<le> ?safe then (r1, rem @ [indexOf (cars r) i])
                 else (moved r1 i ?l (nat ?safe), rem))"
  proof (cases "?safe = int ?x")
    case True
    then show ?thesis unfolding body by simp
  next
    case ne: False
    then have dne: "desiredLaneX r1 i \<noteq> int ?x" using des_eq by blast
    show ?thesis
    proof (cases "int ROAD_WIDTH \<le> ?safe")
      case True
      then have "ROAD_WIDTH \<le> nat ?safe" by linarith
      then have "setCarPos r1 i ?l (nat ?safe) = (r1, - 1)"
        by (intro setCarPos_out_of_bounds) simp
      with ne dne True show ?thesis unfolding body by simp
    next
      case False
      then have "?safe < int ROAD_WIDTH" by simp
      from move[OF ne this] ne dne False show ?thesis unfolding body by simp
    qed
  qed
qed

lemma driveCar_inv:
  assumes inv: "roadInv r" and i: "i \<in> set (cars r)" and clock: "clockOk r now"
      and rem: "\<forall>k\<in>set rem. 0 \<le> k"
  shows "\<exists>r' rem'. driveCar (r, rem) i now = Some (r', rem') \<and> roadInv r' \<and> clockOk r' now
           \<and> cars r' = cars r \<and> (\<forall>k\<in>set rem'. 0 \<le> k) \<and> set rem \<subseteq> set rem'"
proof -
  obtain r1 where r1: "drive r i now = Some r1" and inv1: "roadInv r1"
    and clock1: "clockOk r1 now" and cars1: "cars r1 = cars r"
    using drive_inv[OF inv i clock] by blast
  note char = driveCar_char(1)[OF inv i clock r1 inv1 cars1 clock1, of rem]
    driveCar_char(2)[OF inv i clock r1 inv1 cars1 clock1]
  have idx: "0 \<le> indexOf (cars r) i" using indexOf_member[OF i] by simp
  consider (stay) "safeLaneX r1 i = int (lanePosX (heap r1 i))"
    | (out) "safeLaneX r1 i \<noteq> int (lanePosX (heap r1 i))" "int ROAD_WIDTH \<le> safeLaneX r1 i"
    | (move) "safeLaneX r1 i \<noteq> int (lanePosX (heap r1 i))" "safeLaneX r1 i < int ROAD_WIDTH"
    by linarith
  then show ?thesis
  proof cases
    case stay
    with char(1) inv1 clock1 cars1 rem show ?thesis by auto
  next
    case out
    with char(1) inv1 clock1 cars1 rem idx show ?thesis by auto
  next
    case move
    with char(1) char(2)[OF move] cars1 rem show ?thesis by auto
  qed
qed

lemma driveAll_inv:
  assumes "roadInv r" "clockOk r now" "set cs \<subseteq> set (cars r)" "\<forall>k\<in>set rem. 0 \<le> k"
  shows "\<exists>r' rem'. driveAll cs now (r, rem) = Some (r', rem') \<and> roadInv r' \<and> clockOk r' now
           \<and> cars r' = cars r \<and> (\<forall>k\<in>set rem'. 0 \<le> k) \<and> set rem \<subseteq> set rem'"
  using assms
proof (induction cs arbitrary: r rem)
  case Nil
  then show ?case by simp
next
  case (Cons i cs)
  from Cons.prems have i: "i \<in> set (cars r)" by simp
  obtain r1 rem1 where step: "driveCar (r, rem) i now = Some (r1, rem1)"
    and inv1: "roadInv r1" and clock1: "clockOk r1 now" and cars1: "cars r1 = cars r"
    and rem1: "\<forall>k\<in>set rem1. 0 \<le> k" and sub1: "set rem \<subseteq> set rem1"
    using driveCar_inv[OF Cons.prems(1) i Cons.prems(2) Cons.prems(4)] by blast
  have "set cs \<subseteq> set (cars r1)" using Cons.prems(3) cars1 by simp
  from Cons.IH[OF inv1 clock1 this rem1] obtain r' rem' where
    "driveAll cs now (r1, rem1) = Some (r', rem')" "roadInv r'" "clockOk r' now"
    "cars r' = cars r1" "\<forall>k\<in>set rem'. 0 \<le> k" "set rem1 \<subseteq> set rem'"
    by blast
  with step cars1 sub1 show ?case by auto
qed

subsection \<open>Removal\<close>

lemma spliceOne_nonneg:
  "0 \<le> item \<Longrightarrow> spliceOne xs item = take (nat item) xs @ drop (nat item + 1) xs"
  by (simp add: spliceOne_def Let_def min_def)

lemma set_remove_nth_distinct:
  assumes "distinct xs" "k < length xs"
  shows "set (take k xs @ drop (k + 1) xs) = set xs - {xs ! k}"
    and "distinct (take k xs @ drop (k + 1) xs)"
proof -
  have xs: "xs = take k xs @ xs ! k # drop (k + 1) xs"
    using assms(2) by (simp add: id_take_nth_drop)
  have d: "distinct (take k xs @ xs ! k # drop (k + 1) xs)"
    using assms(1) xs by simp
  then show "distinct (take k xs @ drop (k + 1) xs)" by simp
  have "set xs = set (take k xs @ xs ! k # drop (k + 1) xs)" using xs by simp
  also have "\<dots> = insert (xs ! k) (set (take k xs @ drop (k + 1) xs))" by simp
  finally have "set xs = insert (xs ! k) (set (take k xs @ drop (k + 1) xs))" .
  moreover have "xs ! k \<notin> set (take k xs @ drop (k + 1) xs)" using d by simp
  ultimately show "set (take k xs @ drop (k + 1) xs) = set xs - {xs ! k}" by blast
qed

lemma removeStep_inv:
  assumes inv: "roadInv r" and item: "0 \<le> item"
  shows "\<exists>r'. removeStep now item r = Some r' \<and> roadInv r' \<and> heap r' = heap r
           \<and> cars r' = take (nat item) (cars r) @ drop (nat item + 1) (cars r)"
proof (cases "nat item < length (cars r)")
  case False
  then have "removeStep now item r = Some (r\<lparr>cars := spliceOne (cars r) item\<rparr>)"
    by (simp add: removeStep_def)
  moreover have "spliceOne (cars r) item = cars r"
    using False item by (simp add: spliceOne_nonneg)
  ultimately show ?thesis using inv False by simp
next
  case True
  let ?i = "cars r ! nat item"
  let ?l = "laneNumber (heap r ?i)" and ?x = "lanePosX (heap r ?i)"
  have i: "?i \<in> set (cars r)" using True by simp
  have oki: "carOk r ?i" using inv i by (rule roadInv_carOk)
  note ok = carOkD[OF oki]
  have wf: "wfGrid r" and dist: "distinct (cars r)" and refs: "refsOk r"
    using inv by (simp_all add: roadInv_def)
  obtain r' where r': "removeStep now item r = Some r'"
    and grid: "roadSpace r' = setCell (roadSpace r) ?l ?x Empty"
    and cars: "cars r' = take (nat item) (cars r) @ drop (nat item + 1) (cars r)"
    and heap: "heap r' = heap r" and sz: "spaceSize r' = spaceSize r"
    using True item ok(1) by (simp add: removeStep_def Let_def spliceOne_nonneg)
  have len: "length (roadSpace r ! ?l) = ROAD_WIDTH" using wf ok(1) by (rule wfGrid_nth)
  have cell: "roadSpace r' ! a ! b = (if a = ?l \<and> b = ?x then Empty else roadSpace r ! a ! b)"
    for a b using ok(1,2) len by (simp add: grid setCell_nth)
  have set': "set (cars r') = set (cars r) - {?i}" and dist': "distinct (cars r')"
    using set_remove_nth_distinct[OF dist True] cars by simp_all
  have des: "desiredLaneX r' j = desiredLaneX r j" for j
    by (simp add: desiredLaneX_def heap sz)
  have lenr: "length (roadSpace r') = length (roadSpace r)" by (simp add: grid)
  have "wfGrid r'" using wf grid by (rule wfGrid_setCell)
  moreover have "carOk r' j" if j: "j \<in> set (cars r')" for j
  proof -
    have jr: "j \<in> set (cars r)" and ne: "j \<noteq> ?i" using j set' by auto
    have okj: "carOk r j" using inv jr by (rule roadInv_carOk)
    have "\<not> (laneNumber (heap r j) = ?l \<and> lanePosX (heap r j) = ?x)"
      using carOkD(3)[OF okj] ok(3) ne by auto
    then show ?thesis
      using carOkD[OF okj] by (simp add: carOk_def heap cell des lenr)
  qed
  moreover have "refsOk r'"
    unfolding refsOk_def
  proof (intro allI impI)
    fix a b j
    assume h: "a < length (roadSpace r') \<and> b < ROAD_WIDTH \<and> roadSpace r' ! a ! b = CarRef j"
    then have n: "\<not> (a = ?l \<and> b = ?x)" and old: "roadSpace r ! a ! b = CarRef j"
      by (auto simp: cell split: if_splits)
    from h have "a < length (roadSpace r)" "b < ROAD_WIDTH" by (simp_all add: lenr)
    from refsOkD[OF refs this old]
    have j: "j \<in> set (cars r) \<and> laneNumber (heap r j) = a \<and> lanePosX (heap r j) = b" .
    with n have "j \<noteq> ?i" by auto
    with j set' show "j \<in> set (cars r') \<and> laneNumber (heap r' j) = a \<and> lanePosX (heap r' j) = b"
      by (simp add: heap)
  qed
  ultimately have "roadInv r'"
    using inv dist' sz by (simp add: roadInv_def)
  with r' heap cars show ?thesis by simp
qed

lemma set_remove_nth_subset: "set (take k xs @ drop (k + 1) xs) \<subseteq> set xs"
  using set_take_subset[of k xs] set_drop_subset[of "k + 1" xs] by auto

lemma removeAll_idx_inv:
  assumes "roadInv r" "\<forall>k\<in>set items. 0 \<le> k"
  shows "\<exists>r'. removeAll_idx now items r = Some r' \<and> roadInv r' \<and> heap r' = heap r
           \<and> set (cars r') \<subseteq> set (cars r)"
  using assms
proof (induction items arbitrary: r)
  case Nil
  then show ?case by simp
next
  case (Cons item items)
  from Cons.prems have item: "0 \<le> item" by simp
  obtain r1 where step: "removeStep now item r = Some r1" and inv1: "roadInv r1"
    and heap1: "heap r1 = heap r"
    and cars1: "cars r1 = take (nat item) (cars r) @ drop (nat item + 1) (cars r)"
    using removeStep_inv[OF Cons.prems(1) item] by blast
  have sub1: "set (cars r1) \<subseteq> set (cars r)"
    unfolding cars1 by (rule set_remove_nth_subset)
  from Cons.prems have "\<forall>k\<in>set items. 0 \<le> k" by simp
  from Cons.IH[OF inv1 this] obtain r' where
    "removeAll_idx now items r1 = Some r'" "roadInv r'" "heap r' = heap r1"
    "set (cars r') \<subseteq> set (cars r1)"
    by blast
  with step heap1 sub1 show ?case by auto
qed

lemma set_sortedCars [simp]: "set (sortedCars r) = set (cars r)"
  by (simp add: sortedCars_def)

lemma clockOk_subset:
  "clockOk r now \<Longrightarrow> heap r' = heap r \<Longrightarrow> set (cars r') \<subseteq> set (cars r) \<Longrightarrow> clockOk r' now"
  unfolding clockOk_def by auto

lemma driveCars_inv:
  assumes inv: "roadInv r" and clock: "clockOk r now"
  shows "\<exists>r'. driveCars r now = Some r' \<and> roadInv r' \<and> clockOk r' now
           \<and> set (cars r') \<subseteq> set (cars r)"
proof -
  have "set (sortedCars r) \<subseteq> set (cars r)" by simp
  moreover have "\<forall>k\<in>set ([]::int list). 0 \<le> k" by simp
  ultimately obtain r1 rem1 where loop: "driveAll (sortedCars r) now (r, []) = Some (r1, rem1)"
    and inv1: "roadInv r1" and clock1: "clockOk r1 now" and cars1: "cars r1 = cars r"
    and rem1: "\<forall>k\<in>set rem1. 0 \<le> k"
    using driveAll_inv[OF inv clock] by blast
  have "\<forall>k\<in>set (rev (sort rem1)). 0 \<le> k" using rem1 by simp
  from removeAll_idx_inv[OF inv1 this, of now] obtain r' where
    r': "removeAll_idx now (rev (sort rem1)) r1 = Some r'" "roadInv r'" "heap r' = heap r1"
    "set (cars r') \<subseteq> set (cars r1)"
    by blast
  have "clockOk r' now" using clock1 r'(3,4) by (rule clockOk_subset)
  with loop r' cars1 show ?thesis by (simp add: driveCars_def)
qed

subsection \<open>Construction and spawning\<close>

lemma blockLane_length [simp]: "length (blockLane lane) = length lane"
  by (simp add: blockLane_def)

lemma blockLane_nth:
  "x < length lane \<Longrightarrow> blockLane lane ! x = lane ! x \<or> blockLane lane ! x = Blockage"
  by (simp add: blockLane_def nth_append)

lemma blockFold:
  assumes "\<forall>l<length rs. length (rs ! l) = w" "carFree rs"
  shows "length (fold (\<lambda>k rs. rs[n - 1 - k := blockLane (rs ! (n - 1 - k))]) ks rs) = length rs
       \<and> (\<forall>l<length rs. length (fold (\<lambda>k rs. rs[n - 1 - k := blockLane (rs ! (n - 1 - k))]) ks rs ! l) = w)
       \<and> carFree (fold (\<lambda>k rs. rs[n - 1 - k := blockLane (rs ! (n - 1 - k))]) ks rs)"
  using assms
proof (induction ks arbitrary: rs)
  case Nil
  then show ?case by simp
next
  case (Cons k ks)
  let ?rs = "rs[n - 1 - k := blockLane (rs ! (n - 1 - k))]"
  have len: "length ?rs = length rs" by simp
  have w: "\<forall>l<length ?rs. length (?rs ! l) = w"
  proof (intro allI impI)
    fix l assume "l < length ?rs"
    then show "length (?rs ! l) = w"
      using Cons.prems(1) by (cases "l = n - 1 - k") simp_all
  qed
  have "carFree ?rs"
    unfolding carFree_def
  proof (intro allI impI)
    fix l x i
    assume l: "l < length ?rs" and x: "x < length (?rs ! l)"
    show "?rs ! l ! x \<noteq> CarRef i"
    proof (cases "l = n - 1 - k")
      case True
      with l x have "x < length (rs ! l)" by simp
      from blockLane_nth[OF this] Cons.prems(2) l True this show ?thesis
        unfolding carFree_def by auto
    next
      case False
      with l x Cons.prems(2) show ?thesis unfolding carFree_def by simp
    qed
  qed
  from Cons.IH[OF w this] len show ?case by simp
qed

lemma newRoad_inv:
  assumes "newRoad lanes blocked sz h = Some r" "0 < sz"
  shows "roadInv r \<and> cars r = []"
proof -
  let ?rs0 = "replicate (nat lanes) (replicate ROAD_WIDTH Empty)"
  let ?r0 = "\<lparr> roadSpace = ?rs0, cars = [], blockedLanes = 0, trails = [], completedCars = [],
               spaceSize = sz, heap = h \<rparr>"
  have r: "r = placeBlockage ?r0 blocked"
    using assms(1) by (simp add: newRoad_def split: if_splits)
  have w0: "\<forall>l<length ?rs0. length (?rs0 ! l) = ROAD_WIDTH" by simp
  have c0: "carFree ?rs0" by (simp add: carFree_def)
  have "cars r = [] \<and> spaceSize r = sz \<and> length (roadSpace r) = length ?rs0
        \<and> (\<forall>l<length ?rs0. length (roadSpace r ! l) = ROAD_WIDTH) \<and> carFree (roadSpace r)"
    using blockFold[OF w0 c0, of "length ?rs0" "[0 ..< nat blocked]"] w0 c0
    unfolding r placeBlockage_def Let_def by (simp del: length_replicate nth_replicate)
  then have "cars r = []" "spaceSize r = sz" "wfGrid r" "carFree (roadSpace r)"
    by (simp_all add: wfGrid_iff)
  then show ?thesis
    using assms(2) by (auto simp: roadInv_def refsOk_def carFree_def wfGrid_iff)
qed

lemma desiredLaneX_nonneg: "0 \<le> desiredLaneX r i"
  by (simp add: desiredLaneX_def Let_def)

lemma roadInv_heap_fresh:
  assumes inv: "roadInv r" and fresh: "i \<notin> set (cars r)"
  shows "roadInv (r\<lparr>heap := (heap r)(i := c)\<rparr>)"
proof -
  let ?r = "r\<lparr>heap := (heap r)(i := c)\<rparr>"
  have same: "heap ?r j = heap r j" if "j \<in> set (cars r)" for j
    using that fresh by auto
  have "carOk ?r j" if j: "j \<in> set (cars r)" for j
    using roadInv_carOk[OF inv j] same[OF j] by (simp add: carOk_def desiredLaneX_def)
  moreover have "refsOk ?r"
    unfolding refsOk_def
  proof (intro allI impI)
    fix a b j
    assume h: "a < length (roadSpace ?r) \<and> b < ROAD_WIDTH \<and> roadSpace ?r ! a ! b = CarRef j"
    have refs: "refsOk r" using inv by (simp add: roadInv_def)
    from h have "a < length (roadSpace r)" "b < ROAD_WIDTH" "roadSpace r ! a ! b = CarRef j"
      by simp_all
    from refsOkD[OF refs this]
    have j: "j \<in> set (cars r) \<and> laneNumber (heap r j) = a \<and> lanePosX (heap r j) = b" .
    with same[of j] show "j \<in> set (cars ?r) \<and> laneNumber (heap ?r j) = a \<and> lanePosX (heap ?r j) = b"
      by simp
  qed
  ultimately show ?thesis using inv by (simp add: roadInv_def wfGrid_def)
qed

lemma getRandomLane_open:
  assumes "getRandomLane r k = Some lane" "0 \<le> lane"
  shows "nat lane < length (roadSpace r) \<and> isNull (laneGet (roadSpace r ! nat lane) 0)"
proof -
  let ?open = "filter (\<lambda>l. isNull (laneGet (roadSpace r ! l) 0)) [0 ..< length (roadSpace r)]"
  from assms have k: "k < length ?open" and lane: "lane = int (?open ! k)"
    by (auto simp: getRandomLane_def Let_def split: if_splits)
  from k have "?open ! k \<in> set ?open" by (rule nth_mem)
  then show ?thesis using lane by simp
qed

lemma addCar_inv:
  assumes inv: "roadInv r" and fresh: "i \<notin> set (cars r)" and sp: "0 \<le> speed (heap r i)"
  shows "roadInv (addCar r i k now)"
proof (cases "\<exists>lane. getRandomLane r k = Some lane \<and> 0 \<le> lane")
  case False
  then have "addCar r i k now = r"
    by (auto simp: addCar_def split: option.splits)
  with inv show ?thesis by simp
next
  case True
  then obtain lane where lane: "getRandomLane r k = Some lane" "0 \<le> lane" by blast
  let ?l = "nat lane"
  let ?c = "(setLanePos (heap r i) ?l 0)\<lparr>startTime := Some now, startLane := ?l\<rparr>"
  obtain r' where eq: "addCar r i k now = r'"
    and grid: "roadSpace r' = setCell (roadSpace r) ?l 0 (CarRef i)"
    and cars: "cars r' = cars r @ [i]"
    and heap: "heap r' = (heap r)(i := ?c)" and sz: "spaceSize r' = spaceSize r"
    using lane by (simp add: addCar_def)
  have wf: "wfGrid r" and refs: "refsOk r" using inv by (simp_all add: roadInv_def)
  have l: "?l < length (roadSpace r)" and nul: "isNull (laneGet (roadSpace r ! ?l) 0)"
    using getRandomLane_open[OF lane] by simp_all
  have len: "length (roadSpace r ! ?l) = ROAD_WIDTH" using wf l by (rule wfGrid_nth)
  have w0: "0 < ROAD_WIDTH" by (simp add: ROAD_WIDTH_def)
  have free: "roadSpace r ! ?l ! 0 = Empty"
    using nul len w0 by (cases "roadSpace r ! ?l ! 0") (simp_all add: laneGet_def isNull_def)
  have cell: "roadSpace r' ! a ! b = (if a = ?l \<and> b = 0 then CarRef i else roadSpace r ! a ! b)"
    for a b using l len w0 by (simp add: grid setCell_nth)
  have lenr: "length (roadSpace r') = length (roadSpace r)" by (simp add: grid)
  have des: "desiredLaneX r' j = desiredLaneX r j" for j
    by (simp add: desiredLaneX_def setLanePos_def heap sz)
  have "wfGrid r'" using wf grid by (rule wfGrid_setCell)
  moreover have "distinct (cars r')" using inv fresh by (simp add: roadInv_def cars)
  moreover have "carOk r' j" if j: "j \<in> set (cars r')" for j
  proof (cases "j = i")
    case True
    then show ?thesis
      using l w0 sp desiredLaneX_nonneg[of r i]
      by (simp add: carOk_def cell des lenr heap setLanePos_def)
  next
    case False
    with j have jr: "j \<in> set (cars r)" by (simp add: cars)
    note ok = carOkD[OF roadInv_carOk[OF inv jr]]
    have "\<not> (laneNumber (heap r j) = ?l \<and> lanePosX (heap r j) = 0)"
    proof
      assume "laneNumber (heap r j) = ?l \<and> lanePosX (heap r j) = 0"
      with ok(3) free show False by simp
    qed
    with ok False show ?thesis
      by (simp add: carOk_def cell des lenr heap)
  qed
  moreover have "refsOk r'"
    unfolding refsOk_def
  proof (intro allI impI)
    fix a b j
    assume h: "a < length (roadSpace r') \<and> b < ROAD_WIDTH \<and> roadSpace r' ! a ! b = CarRef j"
    show "j \<in> set (cars r') \<and> laneNumber (heap r' j) = a \<and> lanePosX (heap r' j) = b"
    proof (cases "a = ?l \<and> b = 0")
      case True
      with h have "j = i" by (simp add: cell)
      with True show ?thesis by (simp add: setLanePos_def cars heap)
    next
      case False
      with h have old: "roadSpace r ! a ! b = CarRef j" by (simp add: cell)
      from h have "a < length (roadSpace r)" "b < ROAD_WIDTH" by (simp_all add: lenr)
      from refsOkD[OF refs this old]
      have j: "j \<in> set (cars r) \<and> laneNumber (heap r j) = a \<and> lanePosX (heap r j) = b" .
      with fresh have "j \<noteq> i" by auto
      with j show ?thesis by (simp add: cars heap)
    qed
  qed
  ultimately have "roadInv r'" using inv sz by (simp add: roadInv_def)
  with eq show ?thesis by simp
qed

lemma roadInv_purgeTrails: "roadInv r \<Longrightarrow> roadInv (purgeTrails r now)"
  by (erule roadInv_fieldStep[where now = now]) (simp add: fieldStep_def purgeTrails_def)

section \<open>What holds whatever the clock does\<close>

lemma samePlaces_refl: "samePlaces r r"
  by (simp add: samePlaces_def)

lemma samePlaces_trans: "samePlaces r r' \<Longrightarrow> samePlaces r' r'' \<Longrightarrow> samePlaces r r''"
  by (simp add: samePlaces_def)

lemma samePlaces_updCar:
  "laneNumber (f (heap r i)) = laneNumber (heap r i) \<Longrightarrow>
   lanePosX (f (heap r i)) = lanePosX (heap r i) \<Longrightarrow> samePlaces r (updCar r i f)"
  by (simp add: samePlaces_def updCar_def)

lemma fieldStep_samePlaces: "fieldStep now r r' \<Longrightarrow> samePlaces r r'"
  by (simp add: fieldStep_def samePlaces_def)

lemma samePlaces_alerted: "samePlaces r (alerted r i lane)"
  using fieldStep_alerted[of 0 r i lane] by (rule fieldStep_samePlaces)

lemma samePlaces_effectSpeed: "effectSpeed r i = Some r' \<Longrightarrow> samePlaces r r'"
  by (auto simp: effectSpeed_def Let_def samePlaces_refl split: if_splits option.splits
      intro!: samePlaces_updCar)

lemma samePlaces_drivePrepare:
  assumes "drivePrepare r i now t = Some r5"
  shows "samePlaces r r5"
proof -
  let ?r1 = "updCar r i (\<lambda>c. c\<lparr>distance := distance c + speed c * (of_int (now - t) / 1000)\<rparr>)"
  obtain r2 where r2: "effectSpeed ?r1 i = Some r2"
    using effectSpeed_Some by blast
  let ?r3 = "effectMergeState r2 i"
  let ?r4 = "updCar ?r3 i (\<lambda>c. c\<lparr>lastMoved := Some now\<rparr>)"
  have r5: "r5 = updCar ?r4 i (\<lambda>c. c\<lparr>indicator := (state c = Merge)\<rparr>)"
    using assms r2 by (simp add: drivePrepare_def Let_def)
  have s1: "samePlaces r ?r1" by (intro samePlaces_updCar) simp_all
  have s2: "samePlaces ?r1 r2" using r2 by (rule samePlaces_effectSpeed)
  have s3: "samePlaces r2 ?r3"
    using fieldStep_effectMergeState[of 0 r2 i] by (rule fieldStep_samePlaces)
  have s4: "samePlaces ?r3 ?r4" by (intro samePlaces_updCar) simp_all
  have s5: "samePlaces ?r4 r5" unfolding r5 by (intro samePlaces_updCar) simp_all
  from s1 s2 s3 s4 s5 show ?thesis by (blast intro: samePlaces_trans)
qed

lemma roadOkD:
  assumes "roadOk r"
  shows "wfGrid r" and "distinct (cars r)" and "refsOk r"
    and "\<And>i. i \<in> set (cars r) \<Longrightarrow> laneNumber (heap r i) < length (roadSpace r)"
    and "\<And>i. i \<in> set (cars r) \<Longrightarrow> lanePosX (heap r i) < ROAD_WIDTH"
    and "spaceSize r \<noteq> 0"
  using assms by (simp_all add: roadOk_def)

lemma roadInv_roadOk: "roadInv r \<Longrightarrow> roadOk r"
  by (simp add: roadInv_def roadOk_def carOk_def)

lemma roadOk_samePlaces:
  assumes "roadOk r" "samePlaces r r'"
  shows "roadOk r'"
  using assms by (simp add: roadOk_def samePlaces_def wfGrid_def refsOk_def)

lemma roadOk_cleared:
  assumes ok: "roadOk r"
  shows "roadOk (r\<lparr>roadSpace := setCell (roadSpace r) l x Empty\<rparr>)"
proof -
  let ?r = "r\<lparr>roadSpace := setCell (roadSpace r) l x Empty\<rparr>"
  note d = roadOkD[OF ok]
  have wf: "wfGrid ?r" using d(1) by (rule wfGrid_setCell) simp
  have "refsOk ?r"
    unfolding refsOk_def
  proof (intro allI impI)
    fix a b j
    assume h: "a < length (roadSpace ?r) \<and> b < ROAD_WIDTH \<and> roadSpace ?r ! a ! b = CarRef j"
    then have old: "roadSpace r ! a ! b = CarRef j"
      by (auto simp: setCell_nth split: if_splits)
    from h have "a < length (roadSpace r)" "b < ROAD_WIDTH" by simp_all
    from refsOkD[OF d(3) this old]
    show "j \<in> set (cars ?r) \<and> laneNumber (heap ?r j) = a \<and> lanePosX (heap ?r j) = b" by simp
  qed
  with wf d(2,4,5,6) show ?thesis by (simp add: roadOk_def)
qed

lemma roadOk_moved:
  assumes ok: "roadOk r" and i: "i \<in> set (cars r)"
      and l': "l' < length (roadSpace r)" and x': "x' < ROAD_WIDTH"
  shows "roadOk (moved r i l' x')"
proof -
  let ?m = "moved r i l' x'"
  note d = roadOkD[OF ok]
  note cell = moved_cell[OF d(1) d(4)[OF i] d(5)[OF i] l' x']
  have wf: "wfGrid ?m"
    using d(1) by (simp add: wfGrid_iff moved_def updCar_def)
  have places: "\<forall>j\<in>set (cars ?m). laneNumber (heap ?m j) < length (roadSpace ?m)
                   \<and> lanePosX (heap ?m j) < ROAD_WIDTH"
    using d(4,5) l' x' by (simp add: setLanePos_def)
  have "refsOk ?m"
    unfolding refsOk_def
  proof (intro allI impI)
    fix a b j
    assume h: "a < length (roadSpace ?m) \<and> b < ROAD_WIDTH \<and> roadSpace ?m ! a ! b = CarRef j"
    show "j \<in> set (cars ?m) \<and> laneNumber (heap ?m j) = a \<and> lanePosX (heap ?m j) = b"
    proof (cases "a = l' \<and> b = x'")
      case True
      with h have "j = i" by (simp add: cell)
      with True i show ?thesis by (simp add: setLanePos_def)
    next
      case False
      with h have n: "\<not> (a = laneNumber (heap r i) \<and> b = lanePosX (heap r i))"
        and old: "roadSpace r ! a ! b = CarRef j"
        by (auto simp: cell split: if_splits)
      from h have "a < length (roadSpace r)" "b < ROAD_WIDTH" by simp_all
      from refsOkD[OF d(3) this old]
      have j: "j \<in> set (cars r) \<and> laneNumber (heap r j) = a \<and> lanePosX (heap r j) = b" .
      with n have "j \<noteq> i" by auto
      with j show ?thesis by simp
    qed
  qed
  with wf places d(2,6) show ?thesis by (simp add: roadOk_def)
qed

lemma setCarPos_roadOk:
  assumes ok: "roadOk r" and i: "i \<in> set (cars r)"
  shows "roadOk (fst (setCarPos r i l x)) \<and> cars (fst (setCarPos r i l x)) = cars r"
proof -
  let ?li = "laneNumber (heap r i)" and ?xi = "lanePosX (heap r i)"
  have a: "roadOk (alerted r i l)" using ok samePlaces_alerted by (rule roadOk_samePlaces)
  have ia: "i \<in> set (cars (alerted r i l))" using i by simp
  have c: "roadOk ((alerted r i l)\<lparr>roadSpace := setCell (roadSpace r) ?li ?xi Empty\<rparr>)"
    using roadOk_cleared[OF a, of ?li ?xi] by simp
  have m: "roadOk (moved (alerted r i l) i l x)"
    if "l < length (roadSpace r)" "x < ROAD_WIDTH"
    using roadOk_moved[OF a ia, of l x] that by simp
  show ?thesis
    unfolding setCarPos_unfold using ok c m by (simp add: not_le)
qed

lemma merge_roadOk:
  assumes ok: "roadOk r" and i: "i \<in> set (cars r)"
  shows "\<exists>r'. merge r i = Some r' \<and> roadOk r' \<and> cars r' = cars r"
proof (cases "laneNumber (heap r i) = 0")
  case True
  with ok show ?thesis by (simp add: merge_def Let_def)
next
  case False
  have "laneNumber (heap r i) - 1 < length (roadSpace r)"
    using roadOkD(4)[OF ok i] by linarith
  with False ok setCarPos_roadOk[OF ok i] show ?thesis
    by (simp add: merge_def Let_def getLaneData_def)
qed

lemma drive_roadOk:
  assumes ok: "roadOk r" and i: "i \<in> set (cars r)"
  shows "\<exists>r1. drive r i now = Some r1 \<and> roadOk r1 \<and> cars r1 = cars r"
proof (cases "lastMoved (heap r i)")
  case None
  have sp: "samePlaces r (updCar r i (\<lambda>c. c\<lparr>lastMoved := Some now\<rparr>))"
    by (intro samePlaces_updCar) simp_all
  from roadOk_samePlaces[OF ok sp] sp None show ?thesis
    by (simp add: drive_def samePlaces_def)
next
  case (Some t)
  obtain r5 where r5: "drivePrepare r i now t = Some r5"
    using drivePrepare_Some by blast
  have sp: "samePlaces r r5" using r5 by (rule samePlaces_drivePrepare)
  note ok5 = roadOk_samePlaces[OF ok sp]
  have cars5: "cars r5 = cars r" using sp by (simp add: samePlaces_def)
  have i5: "i \<in> set (cars r5)" using i cars5 by simp
  show ?thesis
  proof (cases "state (heap r5 i) = Merge")
    case False
    with Some r5 ok5 cars5 show ?thesis by (simp add: drive_def)
  next
    case True
    have "laneNumber (heap r5 i) \<le> length (roadSpace r5)"
      using roadOkD(4)[OF ok5 i5] by simp
    then obtain b where b: "canMerge r5 i = Some b" using canMerge_Some by blast
    show ?thesis
    proof (cases b)
      case False
      with Some r5 True b ok5 cars5 show ?thesis by (simp add: drive_def)
    next
      case yes: True
      from merge_roadOk[OF ok5 i5] cars5 Some r5 True b yes show ?thesis
        by (auto simp: drive_def)
    qed
  qed
qed

lemma driveCar_unfold:
  assumes "drive r i now = Some r1"
  shows "driveCar (r, rem) i now =
           Some (if safeLaneX r1 i = int (lanePosX (heap r1 i)) then (r1, rem)
                 else if snd (setCarPos r1 i (laneNumber (heap r1 i)) (nat (safeLaneX r1 i))) = - 1
                 then (fst (setCarPos r1 i (laneNumber (heap r1 i)) (nat (safeLaneX r1 i))),
                       rem @ [indexOf (cars r) i])
                 else (fst (setCarPos r1 i (laneNumber (heap r1 i)) (nat (safeLaneX r1 i))), rem))"
proof -
  let ?x = "lanePosX (heap r1 i)" and ?l = "laneNumber (heap r1 i)"
  let ?d = "getDistance r1 ?l ?x SAll"
  let ?avail = "if ?d < 0 then int ROAD_WIDTH else ?d"
  have safe: "safeLaneX r1 i = min (desiredLaneX r1 i) (int ?x + ?avail)"
    by (simp add: safeLaneX_def Let_def)
  have avail: "0 \<le> ?avail" by simp
  have des_eq: "desiredLaneX r1 i = int ?x \<Longrightarrow> safeLaneX r1 i = int ?x"
    using avail unfolding safe by linarith
  have body: "driveCar (r, rem) i now =
     (if desiredLaneX r1 i \<noteq> int ?x then
        if safeLaneX r1 i \<noteq> int ?x then
          if snd (setCarPos r1 i ?l (nat (safeLaneX r1 i))) = - 1
          then Some (fst (setCarPos r1 i ?l (nat (safeLaneX r1 i))), rem @ [indexOf (cars r) i])
          else Some (fst (setCarPos r1 i ?l (nat (safeLaneX r1 i))), rem)
        else Some (r1, rem)
      else Some (r1, rem))"
    using assms by (simp add: driveCar_def Let_def safeLaneX_def)
  show ?thesis
  proof (cases "safeLaneX r1 i = int ?x")
    case True
    then show ?thesis unfolding body by simp
  next
    case False
    then have "desiredLaneX r1 i \<noteq> int ?x" using des_eq by blast
    with False show ?thesis unfolding body by simp
  qed
qed

lemma driveCar_roadOk:
  assumes ok: "roadOk r" and i: "i \<in> set (cars r)" and rem: "\<forall>k\<in>set rem. 0 \<le> k"
  shows "\<exists>r' rem'. driveCar (r, rem) i now = Some (r', rem') \<and> roadOk r'
           \<and> cars r' = cars r \<and> (\<forall>k\<in>set rem'. 0 \<le> k) \<and> set rem \<subseteq> set rem'"
proof -
  obtain r1 where r1: "drive r i now = Some r1" and ok1: "roadOk r1" and cars1: "cars r1 = cars r"
    using drive_roadOk[OF ok i] by blast
  have i1: "i \<in> set (cars r1)" using i cars1 by simp
  have idx: "0 \<le> indexOf (cars r) i" using indexOf_member[OF i] by simp
  note sc = setCarPos_roadOk[OF ok1 i1, of "laneNumber (heap r1 i)" "nat (safeLaneX r1 i)"]
  show ?thesis
    unfolding driveCar_unfold[OF r1] using ok1 cars1 rem idx sc by auto
qed

lemma driveAll_roadOk:
  assumes "roadOk r" "set cs \<subseteq> set (cars r)" "\<forall>k\<in>set rem. 0 \<le> k"
  shows "\<exists>r' rem'. driveAll cs now (r, rem) = Some (r', rem') \<and> roadOk r'
           \<and> cars r' = cars r \<and> (\<forall>k\<in>set rem'. 0 \<le> k) \<and> set rem \<subseteq> set rem'"
  using assms
proof (induction cs arbitrary: r rem)
  case Nil
  then show ?case by simp
next
  case (Cons i cs)
  from Cons.prems have i: "i \<in> set (cars r)" by simp
  obtain r1 rem1 where step: "driveCar (r, rem) i now = Some (r1, rem1)"
    and ok1: "roadOk r1" and cars1: "cars r1 = cars r"
    and rem1: "\<forall>k\<in>set rem1. 0 \<le> k" and sub1: "set rem \<subseteq> set rem1"
    using driveCar_roadOk[OF Cons.prems(1) i Cons.prems(3)] by blast
  have "set cs \<subseteq> set (cars r1)" using Cons.prems(2) cars1 by simp
  from Cons.IH[OF ok1 this rem1] obtain r' rem' where
    "driveAll cs now (r1, rem1) = Some (r', rem')" "roadOk r'"
    "cars r' = cars r1" "\<forall>k\<in>set rem'. 0 \<le> k" "set rem1 \<subseteq> set rem'"
    by blast
  with step cars1 sub1 show ?case by auto
qed

lemma removeStep_roadOk:
  assumes ok: "roadOk r" and item: "0 \<le> item"
  shows "\<exists>r'. removeStep now item r = Some r' \<and> roadOk r' \<and> heap r' = heap r
           \<and> cars r' = take (nat item) (cars r) @ drop (nat item + 1) (cars r)"
proof (cases "nat item < length (cars r)")
  case False
  then have "removeStep now item r = Some (r\<lparr>cars := spliceOne (cars r) item\<rparr>)"
    by (simp add: removeStep_def)
  moreover have "spliceOne (cars r) item = cars r"
    using False item by (simp add: spliceOne_nonneg)
  ultimately show ?thesis using ok False by simp
next
  case True
  let ?i = "cars r ! nat item"
  let ?l = "laneNumber (heap r ?i)" and ?x = "lanePosX (heap r ?i)"
  note d = roadOkD[OF ok]
  have i: "?i \<in> set (cars r)" using True by simp
  have l: "?l < length (roadSpace r)" and x: "?x < ROAD_WIDTH"
    using d(4)[OF i] d(5)[OF i] by simp_all
  obtain r' where r': "removeStep now item r = Some r'"
    and grid: "roadSpace r' = setCell (roadSpace r) ?l ?x Empty"
    and cars: "cars r' = take (nat item) (cars r) @ drop (nat item + 1) (cars r)"
    and heap: "heap r' = heap r" and sz: "spaceSize r' = spaceSize r"
    using True item l by (simp add: removeStep_def Let_def spliceOne_nonneg)
  have len: "length (roadSpace r ! ?l) = ROAD_WIDTH" using d(1) l by (rule wfGrid_nth)
  have cell: "roadSpace r' ! a ! b = (if a = ?l \<and> b = ?x then Empty else roadSpace r ! a ! b)"
    for a b using l x len by (simp add: grid setCell_nth)
  have set': "set (cars r') = set (cars r) - {?i}" and dist': "distinct (cars r')"
    using set_remove_nth_distinct[OF d(2) True] cars by simp_all
  have lenr: "length (roadSpace r') = length (roadSpace r)" by (simp add: grid)
  have wf': "wfGrid r'" using d(1) grid by (rule wfGrid_setCell)
  have places: "\<forall>j\<in>set (cars r'). laneNumber (heap r' j) < length (roadSpace r')
                   \<and> lanePosX (heap r' j) < ROAD_WIDTH"
    using d(4,5) set' by (simp add: heap lenr)
  have "refsOk r'"
    unfolding refsOk_def
  proof (intro allI impI)
    fix a b j
    assume h: "a < length (roadSpace r') \<and> b < ROAD_WIDTH \<and> roadSpace r' ! a ! b = CarRef j"
    then have n: "\<not> (a = ?l \<and> b = ?x)" and old: "roadSpace r ! a ! b = CarRef j"
      by (auto simp: cell split: if_splits)
    from h have "a < length (roadSpace r)" "b < ROAD_WIDTH" by (simp_all add: lenr)
    from refsOkD[OF d(3) this old]
    have j: "j \<in> set (cars r) \<and> laneNumber (heap r j) = a \<and> lanePosX (heap r j) = b" .
    with n have "j \<noteq> ?i" by auto
    with j set' show "j \<in> set (cars r') \<and> laneNumber (heap r' j) = a \<and> lanePosX (heap r' j) = b"
      by (simp add: heap)
  qed
  with wf' dist' places d(6) sz have "roadOk r'" by (simp add: roadOk_def)
  with r' heap cars show ?thesis by simp
qed

lemma removeAll_idx_roadOk:
  assumes "roadOk r" "\<forall>k\<in>set items. 0 \<le> k"
  shows "\<exists>r'. removeAll_idx now items r = Some r' \<and> roadOk r' \<and> heap r' = heap r
           \<and> set (cars r') \<subseteq> set (cars r)"
  using assms
proof (induction items arbitrary: r)
  case Nil
  then show ?case by simp
next
  case (Cons item items)
  from Cons.prems have item: "0 \<le> item" by simp
  obtain r1 where step: "removeStep now item r = Some r1" and ok1: "roadOk r1"
    and heap1: "heap r1 = heap r"
    and cars1: "cars r1 = take (nat item) (cars r) @ drop (nat item + 1) (cars r)"
    using removeStep_roadOk[OF Cons.prems(1) item] by blast
  have sub1: "set (cars r1) \<subseteq> set (cars r)"
    unfolding cars1 by (rule set_remove_nth_subset)
  from Cons.prems have "\<forall>k\<in>set items. 0 \<le> k" by simp
  from Cons.IH[OF ok1 this] obtain r' where
    "removeAll_idx now items r1 = Some r'" "roadOk r'" "heap r' = heap r1"
    "set (cars r') \<subseteq> set (cars r1)"
    by blast
  with step heap1 sub1 show ?case by auto
qed

lemma removeAll_idx_drops:
  assumes "roadOk r" "\<forall>k\<in>set items. 0 \<le> k" "sorted (rev items)" "idx \<in> set items"
      and "nat idx < length (cars r)" "removeAll_idx now items r = Some r'"
  shows "cars r ! nat idx \<notin> set (cars r')"
  using assms
proof (induction items arbitrary: r)
  case Nil
  then show ?case by simp
next
  case (Cons item items)
  from Cons.prems(2) have item: "0 \<le> item" and rest: "\<forall>k\<in>set items. 0 \<le> k" by simp_all
  from Cons.prems(3) have desc: "\<forall>k\<in>set items. k \<le> item" and srt: "sorted (rev items)"
    by (simp_all add: sorted_append)
  have dist: "distinct (cars r)" using Cons.prems(1) by (rule roadOkD)
  obtain r1 where step: "removeStep now item r = Some r1" and ok1: "roadOk r1"
    and cars1: "cars r1 = take (nat item) (cars r) @ drop (nat item + 1) (cars r)"
    using removeStep_roadOk[OF Cons.prems(1) item] by blast
  from Cons.prems(6) step have fin: "removeAll_idx now items r1 = Some r'" by simp
  obtain r'' where "removeAll_idx now items r1 = Some r''" "set (cars r'') \<subseteq> set (cars r1)"
    using removeAll_idx_roadOk[OF ok1 rest] by blast
  with fin have sub: "set (cars r') \<subseteq> set (cars r1)" by simp
  show ?case
  proof (cases "idx = item")
    case True
    have "cars r ! nat item \<notin> set (cars r1)"
      using set_remove_nth_distinct(1)[OF dist] Cons.prems(5) True cars1 by simp
    with sub True show ?thesis by auto
  next
    case False
    with Cons.prems(4) have mem: "idx \<in> set items" by simp
    with desc False have lt: "idx < item" by force
    have i0: "0 \<le> idx" using rest mem by simp
    have lt': "nat idx < nat item" using lt i0 by linarith
    have same: "cars r1 ! nat idx = cars r ! nat idx"
      unfolding cars1 using lt' Cons.prems(5) by (simp add: nth_append)
    have len: "nat idx < length (cars r1)"
      unfolding cars1 using lt' Cons.prems(5) by (simp add: min_def) linarith
    from Cons.IH[OF ok1 rest srt mem len fin] same show ?thesis by simp
  qed
qed

lemma roadOk_no_ref:
  assumes "roadOk r" "i \<notin> set (cars r)" "l < length (roadSpace r)" "x < length (roadSpace r ! l)"
  shows "roadSpace r ! l ! x \<noteq> CarRef i"
proof
  assume c: "roadSpace r ! l ! x = CarRef i"
  note d = roadOkD[OF assms(1)]
  have "x < ROAD_WIDTH" using d(1) assms(3,4) by (simp add: wfGrid_nth)
  from refsOkD[OF d(3) assms(3) this c] assms(2) show False by simp
qed

lemma driveCars_roadOk:
  assumes ok: "roadOk r"
  shows "\<exists>r'. driveCars r now = Some r' \<and> roadOk r' \<and> set (cars r') \<subseteq> set (cars r)"
proof -
  have "set (sortedCars r) \<subseteq> set (cars r)" by simp
  moreover have "\<forall>k\<in>set ([]::int list). 0 \<le> k" by simp
  ultimately obtain r1 rem1 where loop: "driveAll (sortedCars r) now (r, []) = Some (r1, rem1)"
    and ok1: "roadOk r1" and cars1: "cars r1 = cars r" and rem1: "\<forall>k\<in>set rem1. 0 \<le> k"
    using driveAll_roadOk[OF ok] by blast
  have "\<forall>k\<in>set (rev (sort rem1)). 0 \<le> k" using rem1 by simp
  from removeAll_idx_roadOk[OF ok1 this, of now] obtain r' where
    "removeAll_idx now (rev (sort rem1)) r1 = Some r'" "roadOk r'"
    "set (cars r') \<subseteq> set (cars r1)"
    by blast
  with loop cars1 show ?thesis by (simp add: driveCars_def)
qed

lemma newRoad_roadOk:
  assumes "newRoad lanes blocked sz h = Some r" "sz \<noteq> 0"
  shows "roadOk r \<and> cars r = []"
proof -
  let ?rs0 = "replicate (nat lanes) (replicate ROAD_WIDTH Empty)"
  let ?r0 = "\<lparr> roadSpace = ?rs0, cars = [], blockedLanes = 0, trails = [], completedCars = [],
               spaceSize = sz, heap = h \<rparr>"
  have r: "r = placeBlockage ?r0 blocked"
    using assms(1) by (simp add: newRoad_def split: if_splits)
  have w0: "\<forall>l<length ?rs0. length (?rs0 ! l) = ROAD_WIDTH" by simp
  have c0: "carFree ?rs0" by (simp add: carFree_def)
  have "cars r = [] \<and> spaceSize r = sz \<and> length (roadSpace r) = length ?rs0
        \<and> (\<forall>l<length ?rs0. length (roadSpace r ! l) = ROAD_WIDTH) \<and> carFree (roadSpace r)"
    using blockFold[OF w0 c0, of "length ?rs0" "[0 ..< nat blocked]"] w0 c0
    unfolding r placeBlockage_def Let_def by (simp del: length_replicate nth_replicate)
  then have "cars r = []" "spaceSize r = sz" "wfGrid r" "carFree (roadSpace r)"
    by (simp_all add: wfGrid_iff)
  then show ?thesis
    using assms(2) by (auto simp: roadOk_def refsOk_def carFree_def wfGrid_iff)
qed

lemma roadOk_heap_fresh:
  assumes ok: "roadOk r" and fresh: "i \<notin> set (cars r)"
  shows "roadOk (r\<lparr>heap := (heap r)(i := c)\<rparr>)"
proof -
  let ?r = "r\<lparr>heap := (heap r)(i := c)\<rparr>"
  note d = roadOkD[OF ok]
  have same: "heap ?r j = heap r j" if "j \<in> set (cars r)" for j
    using that fresh by auto
  have "refsOk ?r"
    unfolding refsOk_def
  proof (intro allI impI)
    fix a b j
    assume h: "a < length (roadSpace ?r) \<and> b < ROAD_WIDTH \<and> roadSpace ?r ! a ! b = CarRef j"
    then have "a < length (roadSpace r)" "b < ROAD_WIDTH" "roadSpace r ! a ! b = CarRef j"
      by simp_all
    from refsOkD[OF d(3) this]
    have j: "j \<in> set (cars r) \<and> laneNumber (heap r j) = a \<and> lanePosX (heap r j) = b" .
    with same[of j] show "j \<in> set (cars ?r) \<and> laneNumber (heap ?r j) = a \<and> lanePosX (heap ?r j) = b"
      by simp
  qed
  with d(1,2,4,5,6) same show ?thesis by (simp add: roadOk_def wfGrid_def)
qed

lemma addCar_roadOk:
  assumes ok: "roadOk r" and fresh: "i \<notin> set (cars r)"
  shows "roadOk (addCar r i k now)"
proof (cases "\<exists>lane. getRandomLane r k = Some lane \<and> 0 \<le> lane")
  case False
  then have "addCar r i k now = r"
    by (auto simp: addCar_def split: option.splits)
  with ok show ?thesis by simp
next
  case True
  then obtain lane where lane: "getRandomLane r k = Some lane" "0 \<le> lane" by blast
  let ?l = "nat lane"
  let ?c = "(setLanePos (heap r i) ?l 0)\<lparr>startTime := Some now, startLane := ?l\<rparr>"
  note d = roadOkD[OF ok]
  obtain r' where eq: "addCar r i k now = r'"
    and grid: "roadSpace r' = setCell (roadSpace r) ?l 0 (CarRef i)"
    and cars: "cars r' = cars r @ [i]"
    and heap: "heap r' = (heap r)(i := ?c)" and sz: "spaceSize r' = spaceSize r"
    using lane by (simp add: addCar_def)
  have l: "?l < length (roadSpace r)"
    using getRandomLane_open[OF lane] by simp
  have len: "length (roadSpace r ! ?l) = ROAD_WIDTH" using d(1) l by (rule wfGrid_nth)
  have w0: "0 < ROAD_WIDTH" by (simp add: ROAD_WIDTH_def)
  have cell: "roadSpace r' ! a ! b = (if a = ?l \<and> b = 0 then CarRef i else roadSpace r ! a ! b)"
    for a b using l len w0 by (simp add: grid setCell_nth)
  have lenr: "length (roadSpace r') = length (roadSpace r)" by (simp add: grid)
  have wf': "wfGrid r'" using d(1) grid by (rule wfGrid_setCell)
  have dist': "distinct (cars r')" using d(2) fresh by (simp add: cars)
  have places: "\<forall>j\<in>set (cars r'). laneNumber (heap r' j) < length (roadSpace r')
                   \<and> lanePosX (heap r' j) < ROAD_WIDTH"
    using d(4,5) l w0 by (auto simp: cars heap lenr setLanePos_def)
  have "refsOk r'"
    unfolding refsOk_def
  proof (intro allI impI)
    fix a b j
    assume h: "a < length (roadSpace r') \<and> b < ROAD_WIDTH \<and> roadSpace r' ! a ! b = CarRef j"
    show "j \<in> set (cars r') \<and> laneNumber (heap r' j) = a \<and> lanePosX (heap r' j) = b"
    proof (cases "a = ?l \<and> b = 0")
      case True
      with h have "j = i" by (simp add: cell)
      with True show ?thesis by (simp add: setLanePos_def cars heap)
    next
      case False
      with h have old: "roadSpace r ! a ! b = CarRef j" by (simp add: cell)
      from h have "a < length (roadSpace r)" "b < ROAD_WIDTH" by (simp_all add: lenr)
      from refsOkD[OF d(3) this old]
      have j: "j \<in> set (cars r) \<and> laneNumber (heap r j) = a \<and> lanePosX (heap r j) = b" .
      with fresh have "j \<noteq> i" by auto
      with j show ?thesis by (simp add: cars heap)
    qed
  qed
  with wf' dist' places d(6) sz have "roadOk r'" by (simp add: roadOk_def)
  with eq show ?thesis by simp
qed

lemma roadOk_purgeTrails: "roadOk r \<Longrightarrow> roadOk (purgeTrails r now)"
  by (erule roadOk_samePlaces) (simp add: samePlaces_def purgeTrails_def)

lemma reachable_roadOk: "reachable r \<Longrightarrow> roadOk r"
proof (induction rule: reachable.induct)
  case (construct lanes blocked sz h r)
  then show ?case using newRoad_roadOk by blast
next
  case (add r i c k now)
  have "roadOk (r\<lparr>heap := (heap r)(i := c)\<rparr>)"
    using add.IH add.hyps(2) by (rule roadOk_heap_fresh)
  then show ?case using add.hyps(2) by (intro addCar_roadOk) simp_all
next
  case (tick r now r')
  from driveCars_roadOk[OF tick.IH, of now] tick.hyps(2) show ?case by simp
next
  case (mergeCar r i r')
  from merge_roadOk[OF mergeCar.IH mergeCar.hyps(2)] mergeCar.hyps(3) show ?case by simp
next
  case (purge r now)
  then show ?case by (simp add: roadOk_purgeTrails)
qed

section \<open>The trait transform\<close>

text \<open>
  C4. \<open>getValueFromNormalized\<close> at the input 1 does not return the high anchor for
  three of the four anchor triples of the program: it picks its branch by comparing
  the input with the anchor \<open>mid\<close>, so every input of \<open>[0, 1]\<close> takes the lower
  branch. Following distance gives 5.8 (high is 5), merge distance 0 (high is 2),
  merge gap 2.2 (high is 3); only merge space reaches its high anchor 5.
\<close>

theorem getValueFromNormalized_at_one:
  "getValueFromNormalized 1 FOLLOWING_DISTANCE_LOW FOLLOWING_DISTANCE_MID FOLLOWING_DISTANCE_HIGH = 29 / 5
   \<and> FOLLOWING_DISTANCE_HIGH = 5
   \<and> getValueFromNormalized 1 MERGE_DISTANCE_LOW MERGE_DISTANCE_MID MERGE_DISTANCE_HIGH = 0
   \<and> MERGE_DISTANCE_HIGH = 2
   \<and> getValueFromNormalized 1 MERGE_GAP_LOW MERGE_GAP_MID MERGE_GAP_HIGH = 22 / 10
   \<and> MERGE_GAP_HIGH = 3
   \<and> getValueFromNormalized 1 MERGE_SPACE_LOW MERGE_SPACE_MID MERGE_SPACE_HIGH = 5"
  by (simp add: getValueFromNormalized_def
      FOLLOWING_DISTANCE_LOW_def FOLLOWING_DISTANCE_MID_def FOLLOWING_DISTANCE_HIGH_def
      MERGE_DISTANCE_LOW_def MERGE_DISTANCE_MID_def MERGE_DISTANCE_HIGH_def
      MERGE_GAP_LOW_def MERGE_GAP_MID_def MERGE_GAP_HIGH_def
      MERGE_SPACE_LOW_def MERGE_SPACE_MID_def MERGE_SPACE_HIGH_def)

section \<open>Committing a position: \<open>setCarPos\<close>\<close>

lemmas crowded_defs = crowdedRoad_def crowdedHeap_def car0_def newCar_def

text \<open>
  C1. A commit onto an occupied cell is not a no-op: \<open>setCarPos\<close> of car 2 (lane 0,
  cell 3) onto cell 5 of its lane, which car 3 holds, returns \<open>-1\<close> but has cleared
  cell 3, while the car still records cell 3 as its place. The failures at the
  bounds checks, such as the destination cell 50, return \<open>-1\<close> and change nothing.
\<close>

theorem setCarPos_occupied_clears_cell:
  "roadSpace crowdedRoad ! 0 ! 3 = CarRef 2 \<and> roadSpace crowdedRoad ! 0 ! 5 = CarRef 3
   \<and> snd (setCarPos crowdedRoad 2 0 5) = - 1
   \<and> roadSpace (fst (setCarPos crowdedRoad 2 0 5)) ! 0 ! 3 = Empty
   \<and> laneNumber (heap (fst (setCarPos crowdedRoad 2 0 5)) 2) = 0
   \<and> lanePosX (heap (fst (setCarPos crowdedRoad 2 0 5)) 2) = 3
   \<and> setCarPos crowdedRoad 2 0 50 = (crowdedRoad, - 1)"
  by (simp add: setCarPos_def crowded_defs ROAD_WIDTH_def Let_def setCell_def laneGet_def
      isNull_def)

lemma firstCarBehind_None:
  "firstCarBehind lane n = None \<longleftrightarrow> (\<forall>k<n. \<not> isCarCell (laneGet lane k))"
proof (induction n)
  case 0
  then show ?case by simp
next
  case (Suc n)
  show ?case
  proof (cases "isCarCell (laneGet lane n)")
    case True
    then have "firstCarBehind lane (Suc n) \<noteq> None"
      by (auto simp: isCarCell_def split: option.splits cell.splits)
    with True show ?thesis by auto
  next
    case False
    then have "firstCarBehind lane (Suc n) = firstCarBehind lane n"
      by (auto simp: isCarCell_def split: option.splits cell.splits)
    with False Suc.IH show ?thesis by (auto simp: less_Suc_eq)
  qed
qed

lemma firstCarBehind_Some:
  "firstCarBehind lane n = Some j \<longleftrightarrow>
     (\<exists>k<n. laneGet lane k = Some (CarRef j)
            \<and> (\<forall>k'. k < k' \<and> k' < n \<longrightarrow> \<not> isCarCell (laneGet lane k')))"
proof (induction n)
  case 0
  then show ?case by simp
next
  case (Suc n)
  show ?case
  proof (cases "isCarCell (laneGet lane n)")
    case True
    then obtain j' where j': "laneGet lane n = Some (CarRef j')"
      by (auto simp: isCarCell_def split: option.splits cell.splits)
    then have f: "firstCarBehind lane (Suc n) = Some j'" by simp
    show ?thesis
    proof
      assume "firstCarBehind lane (Suc n) = Some j"
      with f have "j = j'" by simp
      with j' show "\<exists>k<Suc n. laneGet lane k = Some (CarRef j)
            \<and> (\<forall>k'. k < k' \<and> k' < Suc n \<longrightarrow> \<not> isCarCell (laneGet lane k'))"
        by (intro exI[of _ n]) auto
    next
      assume "\<exists>k<Suc n. laneGet lane k = Some (CarRef j)
            \<and> (\<forall>k'. k < k' \<and> k' < Suc n \<longrightarrow> \<not> isCarCell (laneGet lane k'))"
      then obtain k where k: "k < Suc n" "laneGet lane k = Some (CarRef j)"
        "\<forall>k'. k < k' \<and> k' < Suc n \<longrightarrow> \<not> isCarCell (laneGet lane k')" by blast
      have "k = n"
      proof (rule ccontr)
        assume "k \<noteq> n"
        with k(1) have "k < n \<and> n < Suc n" by simp
        with k(3) True show False by blast
      qed
      with k(2) j' f show "firstCarBehind lane (Suc n) = Some j" by simp
    qed
  next
    case False
    then have f: "firstCarBehind lane (Suc n) = firstCarBehind lane n"
      by (auto simp: isCarCell_def split: option.splits cell.splits)
    have "(\<exists>k<Suc n. laneGet lane k = Some (CarRef j)
            \<and> (\<forall>k'. k < k' \<and> k' < Suc n \<longrightarrow> \<not> isCarCell (laneGet lane k')))
        \<longleftrightarrow> (\<exists>k<n. laneGet lane k = Some (CarRef j)
            \<and> (\<forall>k'. k < k' \<and> k' < n \<longrightarrow> \<not> isCarCell (laneGet lane k')))"
      (is "?L \<longleftrightarrow> ?R")
    proof
      assume ?L
      then obtain k where k: "k < Suc n" "laneGet lane k = Some (CarRef j)"
        "\<forall>k'. k < k' \<and> k' < Suc n \<longrightarrow> \<not> isCarCell (laneGet lane k')" by blast
      from k(2) False have "k \<noteq> n" by (auto simp: isCarCell_def)
      with k(1) have "k < n" by simp
      moreover have "\<forall>k'. k < k' \<and> k' < n \<longrightarrow> \<not> isCarCell (laneGet lane k')"
        using k(3) by simp
      ultimately show ?R using k(2) by blast
    next
      assume ?R
      then obtain k where k: "k < n" "laneGet lane k = Some (CarRef j)"
        "\<forall>k'. k < k' \<and> k' < n \<longrightarrow> \<not> isCarCell (laneGet lane k')" by blast
      have "\<forall>k'. k < k' \<and> k' < Suc n \<longrightarrow> \<not> isCarCell (laneGet lane k')"
        using k(3) False by (auto simp: less_Suc_eq)
      with k(1,2) show ?L by (intro exI[of _ k]) simp
    qed
    with f Suc.IH show ?thesis by simp
  qed
qed

lemma alertRearDriver_heap:
  assumes "lane < length (roadSpace r)"
  shows "heap (alertRearDriver r i lane) =
           (case firstCarBehind (roadSpace r ! lane) (lanePosX (heap r i)) of
              Some j \<Rightarrow> (heap r)(j := alertMerge (heap r j))
            | None \<Rightarrow> heap r)"
proof (cases "lanePosX (heap r i)")
  case 0
  with assms show ?thesis by (simp add: alertRearDriver_def)
next
  case (Suc n)
  with assms show ?thesis
    by (simp add: alertRearDriver_def Let_def updCar_def split: option.splits cell.splits)
qed

lemma setCarPos_carsLetIn:
  "carsLetIn (heap (fst (setCarPos r i lane laneX)) j) =
     (if lane \<ge> length (roadSpace r) \<or> laneX \<ge> ROAD_WIDTH
         \<or> laneNumber (heap r i) \<ge> length (roadSpace r) \<or> lanePosX (heap r i) \<ge> ROAD_WIDTH
      then carsLetIn (heap r j)
      else carsLetIn (heap (alerted r i lane) j))"
  by (simp add: setCarPos_unfold moved_def updCar_def setLanePos_def)

lemma roadOk_other_lane:
  assumes ok: "roadOk r" and lane: "lane < length (roadSpace r)"
      and other: "laneNumber (heap r i) \<noteq> lane"
  shows "CarRef i \<notin> set (roadSpace r ! lane)"
proof
  assume "CarRef i \<in> set (roadSpace r ! lane)"
  then obtain x where x: "x < length (roadSpace r ! lane)" "roadSpace r ! lane ! x = CarRef i"
    by (auto simp: in_set_conv_nth)
  note d = roadOkD[OF ok]
  have "x < ROAD_WIDTH" using d(1) lane x(1) by (simp add: wfGrid_nth)
  from refsOkD[OF d(3) lane this x(2)] other show False by simp
qed

text \<open>
  C10, as the code has it. When \<open>setCarPos\<close> is called with a destination lane
  other than the car's lane and the call passes the two bounds checks (the
  destination on the grid, the car's recorded place on the grid), on a road that
  does not hold the car's reference in the destination lane (no road of \<open>roadOk\<close>
  does: \<open>roadOk_other_lane\<close>), the moving car's let-in counter grows by 1, the
  counter of the nearest car behind the car's position in the destination lane grows
  by 1, and no other counter changes; this holds whatever the occupancy test says,
  and an occupied destination makes the call return \<open>-1\<close>.
\<close>

theorem setCarPos_alerts:
  assumes lane: "lane < length (roadSpace r)" and laneX: "laneX < ROAD_WIDTH"
      and li: "laneNumber (heap r i) < length (roadSpace r)"
      and xi: "lanePosX (heap r i) < ROAD_WIDTH"
      and other: "laneNumber (heap r i) \<noteq> lane"
      and notin: "CarRef i \<notin> set (roadSpace r ! lane)"
  shows "carsLetIn (heap (fst (setCarPos r i lane laneX)) i) = carsLetIn (heap r i) + 1
       \<and> (\<forall>k j. k < lanePosX (heap r i) \<and> laneGet (roadSpace r ! lane) k = Some (CarRef j)
                 \<and> (\<forall>k'. k < k' \<and> k' < lanePosX (heap r i) \<longrightarrow>
                        \<not> isCarCell (laneGet (roadSpace r ! lane) k')) \<longrightarrow>
            carsLetIn (heap (fst (setCarPos r i lane laneX)) j) = carsLetIn (heap r j) + 1)
       \<and> (\<forall>j. j \<noteq> i \<and> firstCarBehind (roadSpace r ! lane) (lanePosX (heap r i)) \<noteq> Some j \<longrightarrow>
            carsLetIn (heap (fst (setCarPos r i lane laneX)) j) = carsLetIn (heap r j))
       \<and> (\<not> isNull (laneGet (roadSpace r ! lane) laneX) \<longrightarrow>
            snd (setCarPos r i lane laneX) = - 1)"
proof -
  let ?r' = "fst (setCarPos r i lane laneX)"
  let ?rear = "firstCarBehind (roadSpace r ! lane) (lanePosX (heap r i))"
  have cnt: "carsLetIn (heap ?r' j) = carsLetIn (heap (alerted r i lane) j)" for j
    using lane laneX li xi by (simp add: setCarPos_carsLetIn)
  have al: "heap (alerted r i lane) = (heap (alertRearDriver r i lane))
              (i := alertMerge (heap (alertRearDriver r i lane) i))"
    using other by (simp add: alerted_def updCar_def)
  note rd = alertRearDriver_heap[OF lane, of i]
  have rear_ne: "?rear \<noteq> Some i"
  proof
    assume "?rear = Some i"
    then obtain k where "laneGet (roadSpace r ! lane) k = Some (CarRef i)"
      unfolding firstCarBehind_Some by blast
    then have "CarRef i \<in> set (roadSpace r ! lane)"
      by (auto simp: laneGet_def in_set_conv_nth split: if_splits)
    with notin show False by simp
  qed
  have own: "carsLetIn (heap ?r' i) = carsLetIn (heap r i) + 1"
    using rear_ne unfolding cnt al rd
    by (cases ?rear) (auto simp: alertMerge_def)
  have near: "carsLetIn (heap ?r' j) = carsLetIn (heap r j) + 1" if "?rear = Some j" for j
  proof -
    from that rear_ne have "j \<noteq> i" by auto
    with that show ?thesis unfolding cnt al rd by (simp add: alertMerge_def)
  qed
  have rest: "carsLetIn (heap ?r' j) = carsLetIn (heap r j)" if "j \<noteq> i" "?rear \<noteq> Some j" for j
    using that unfolding cnt al rd by (cases ?rear) auto
  have occ: "snd (setCarPos r i lane laneX) = - 1"
    if "\<not> isNull (laneGet (roadSpace r ! lane) laneX)"
  proof -
    have "setCell (roadSpace r) (laneNumber (heap r i)) (lanePosX (heap r i)) Empty ! lane
            = roadSpace r ! lane"
      using other by (simp add: setCell_def)
    with that lane laneX li xi show ?thesis by (simp add: setCarPos_unfold)
  qed
  have near': "\<forall>k j. k < lanePosX (heap r i) \<and> laneGet (roadSpace r ! lane) k = Some (CarRef j)
                 \<and> (\<forall>k'. k < k' \<and> k' < lanePosX (heap r i) \<longrightarrow>
                        \<not> isCarCell (laneGet (roadSpace r ! lane) k')) \<longrightarrow>
            carsLetIn (heap ?r' j) = carsLetIn (heap r j) + 1"
  proof (intro allI impI)
    fix k j
    assume "k < lanePosX (heap r i) \<and> laneGet (roadSpace r ! lane) k = Some (CarRef j)
                 \<and> (\<forall>k'. k < k' \<and> k' < lanePosX (heap r i) \<longrightarrow>
                        \<not> isCarCell (laneGet (roadSpace r ! lane) k'))"
    then have "?rear = Some j" unfolding firstCarBehind_Some by blast
    then show "carsLetIn (heap ?r' j) = carsLetIn (heap r j) + 1" by (rule near)
  qed
  have rest': "\<forall>j. j \<noteq> i \<and> ?rear \<noteq> Some j \<longrightarrow> carsLetIn (heap ?r' j) = carsLetIn (heap r j)"
    using rest by blast
  have occ': "\<not> isNull (laneGet (roadSpace r ! lane) laneX) \<longrightarrow>
            snd (setCarPos r i lane laneX) = - 1"
    using occ by blast
  from own near' rest' occ' show ?thesis by (intro conjI)
qed

theorem setCarPos_alerts_witness:
  "snd (setCarPos crowdedRoad 1 0 5) = - 1
   \<and> laneGet (roadSpace crowdedRoad ! 0) 3 = Some (CarRef 2)
   \<and> carsLetIn (heap crowdedRoad 1) = 0 \<and> carsLetIn (heap crowdedRoad 2) = 0
   \<and> carsLetIn (heap (fst (setCarPos crowdedRoad 1 0 5)) 1) = 1
   \<and> carsLetIn (heap (fst (setCarPos crowdedRoad 1 0 5)) 2) = 1
   \<and> carsLetIn (heap (fst (setCarPos crowdedRoad 1 0 5)) 3) = 0"
proof -
  have h: "0 < length (roadSpace crowdedRoad)" "5 < ROAD_WIDTH"
    "laneNumber (heap crowdedRoad 1) < length (roadSpace crowdedRoad)"
    "lanePosX (heap crowdedRoad 1) < ROAD_WIDTH"
    "laneNumber (heap crowdedRoad 1) \<noteq> 0"
    by (simp_all add: crowded_defs ROAD_WIDTH_def)
  have n: "CarRef 1 \<notin> set (roadSpace crowdedRoad ! 0)"
    by (simp add: crowded_defs eval_nat_numeral)
  have g: "laneGet (roadSpace crowdedRoad ! 0) 3 = Some (CarRef 2)"
    "laneGet (roadSpace crowdedRoad ! 0) 4 = Some Empty"
    "laneGet (roadSpace crowdedRoad ! 0) 5 = Some (CarRef 3)"
    "lanePosX (heap crowdedRoad 1) = 5"
    "carsLetIn (heap crowdedRoad 1) = 0" "carsLetIn (heap crowdedRoad 2) = 0"
    "carsLetIn (heap crowdedRoad 3) = 0"
    by (simp_all add: crowded_defs laneGet_def)
  have f: "firstCarBehind (roadSpace crowdedRoad ! 0) 5 = Some 2"
    using g(1,2) by (simp add: eval_nat_numeral)
  note t = setCarPos_alerts[OF h n]
  from t have a: "carsLetIn (heap (fst (setCarPos crowdedRoad 1 0 5)) 1) = 1"
    using g by simp
  from t have "3 < lanePosX (heap crowdedRoad 1) \<and> laneGet (roadSpace crowdedRoad ! 0) 3 = Some (CarRef 2)
                 \<and> (\<forall>k'. 3 < k' \<and> k' < lanePosX (heap crowdedRoad 1) \<longrightarrow>
                        \<not> isCarCell (laneGet (roadSpace crowdedRoad ! 0) k')) \<longrightarrow>
            carsLetIn (heap (fst (setCarPos crowdedRoad 1 0 5)) 2) = carsLetIn (heap crowdedRoad 2) + 1"
    by blast
  moreover have "\<forall>k'. 3 < k' \<and> k' < lanePosX (heap crowdedRoad 1) \<longrightarrow>
                        \<not> isCarCell (laneGet (roadSpace crowdedRoad ! 0) k')"
  proof (intro allI impI)
    fix k' :: nat assume "3 < k' \<and> k' < lanePosX (heap crowdedRoad 1)"
    then have "k' = 4" using g(4) by simp
    then show "\<not> isCarCell (laneGet (roadSpace crowdedRoad ! 0) k')"
      using g(2) by (simp add: isCarCell_def)
  qed
  ultimately have b: "carsLetIn (heap (fst (setCarPos crowdedRoad 1 0 5)) 2) = 1"
    using g by simp
  from t f g(4) have c: "carsLetIn (heap (fst (setCarPos crowdedRoad 1 0 5)) 3) = 0"
    using g(7) by simp
  from t g(3) have d: "snd (setCarPos crowdedRoad 1 0 5) = - 1"
    by (simp add: isNull_def)
  from a b c d g show ?thesis by simp
qed

text \<open>
  A call with another destination lane that fails a bounds check alerts nobody: car
  1 (lane 1, cell 5) sent to cell 50 of lane 0 gets \<open>-1\<close> and the road as it was;
  neither its own counter nor that of car 2, the nearest car behind it in lane 0,
  has grown.
\<close>

theorem setCarPos_out_of_range_no_alert:
  "laneNumber (heap crowdedRoad 1) = 1 \<and> lanePosX (heap crowdedRoad 1) = 5
   \<and> firstCarBehind (roadSpace crowdedRoad ! 0) 5 = Some 2
   \<and> setCarPos crowdedRoad 1 0 50 = (crowdedRoad, - 1)
   \<and> carsLetIn (heap (fst (setCarPos crowdedRoad 1 0 50)) 1) = carsLetIn (heap crowdedRoad 1)
   \<and> carsLetIn (heap (fst (setCarPos crowdedRoad 1 0 50)) 2) = carsLetIn (heap crowdedRoad 2)"
proof -
  have a: "laneNumber (heap crowdedRoad 1) = 1" "lanePosX (heap crowdedRoad 1) = 5"
    by (simp_all add: crowded_defs)
  have b: "firstCarBehind (roadSpace crowdedRoad ! 0) 5 = Some 2"
    by (simp add: crowded_defs laneGet_def eval_nat_numeral)
  have c: "setCarPos crowdedRoad 1 0 50 = (crowdedRoad, - 1)"
    by (rule setCarPos_out_of_bounds) (simp add: ROAD_WIDTH_def)
  from a b c show ?thesis by simp
qed

section \<open>The grid invariant\<close>

text \<open>
  While the clock does not step back, a tick keeps the grid invariant: from a road
  of \<open>roadInv\<close>, at a clock value not earlier than the last drive of any listed car,
  \<open>driveCars\<close> completes in a road of \<open>roadInv\<close>, in which the cell at every listed
  car's recorded place holds the car's reference and no other cell does. The
  constructor, \<open>addCar\<close>, \<open>merge\<close> and \<open>purgeTrails\<close> keep \<open>roadInv\<close> as well
  (\<open>newRoad_inv\<close>, \<open>addCar_inv\<close>, \<open>merge_inv\<close>, \<open>roadInv_purgeTrails\<close>).
\<close>

lemma driveCars_keeps_grid:
  assumes inv: "roadInv r" and clock: "clockOk r now"
  shows "\<exists>r'. driveCars r now = Some r' \<and> roadInv r' \<and> clockOk r' now
           \<and> (\<forall>i\<in>set (cars r').
                 roadSpace r' ! laneNumber (heap r' i) ! lanePosX (heap r' i) = CarRef i
                 \<and> (\<forall>l x. l < length (roadSpace r') \<and> x < length (roadSpace r' ! l)
                          \<and> roadSpace r' ! l ! x = CarRef i \<longrightarrow>
                        l = laneNumber (heap r' i) \<and> x = lanePosX (heap r' i)))"
proof -
  obtain r' where r': "driveCars r now = Some r'" and inv': "roadInv r'"
    and clock': "clockOk r' now"
    using driveCars_inv[OF inv clock] by blast
  have wf: "wfGrid r'" and refs: "refsOk r'" using inv' by (simp_all add: roadInv_def)
  have each: "roadSpace r' ! laneNumber (heap r' i) ! lanePosX (heap r' i) = CarRef i
                 \<and> (\<forall>l x. l < length (roadSpace r') \<and> x < length (roadSpace r' ! l)
                          \<and> roadSpace r' ! l ! x = CarRef i \<longrightarrow>
                        l = laneNumber (heap r' i) \<and> x = lanePosX (heap r' i))"
    if i: "i \<in> set (cars r')" for i
  proof (intro conjI allI impI)
    show "roadSpace r' ! laneNumber (heap r' i) ! lanePosX (heap r' i) = CarRef i"
      using carOkD(3)[OF roadInv_carOk[OF inv' i]] .
  next
    fix l x
    assume h: "l < length (roadSpace r') \<and> x < length (roadSpace r' ! l)
                 \<and> roadSpace r' ! l ! x = CarRef i"
    from h have l: "l < length (roadSpace r')" and x: "x < length (roadSpace r' ! l)"
      and c: "roadSpace r' ! l ! x = CarRef i" by simp_all
    have "x < ROAD_WIDTH" using wfGrid_nth[OF wf l] x by simp
    from refsOkD[OF refs l this c]
    have "laneNumber (heap r' i) = l \<and> lanePosX (heap r' i) = x" by simp
    then show "l = laneNumber (heap r' i)" "x = lanePosX (heap r' i)" by simp_all
  qed
  from r' inv' clock' each show ?thesis by blast
qed

lemma newRoad_emptyRoad: "newRoad 2 1 15 (\<lambda>_. car0) = Some emptyRoad"
  by (simp add: newRoad_def placeBlockage_def emptyRoad_def blockLane_def ROAD_WIDTH_def
      BLOCK_START_def Let_def eval_nat_numeral)

lemma stepBackRun_cells:
  "(case forwardRun of None \<Rightarrow> False
    | Some r0 \<Rightarrow>
        cars r0 = [3, 5, 7]
        \<and> map (\<lambda>i. roadSpace r0 ! laneNumber (heap r0 i) ! lanePosX (heap r0 i)) (cars r0)
            = map CarRef (cars r0)
        \<and> (case driveCars r0 4800 of None \<Rightarrow> False
            | Some r \<Rightarrow> cars r = [3, 7] \<and> laneNumber (heap r 3) = 0 \<and> lanePosX (heap r 3) = 15
                \<and> roadSpace r ! 0 ! 15 = Empty \<and> CarRef 3 \<notin> set (concat (roadSpace r))))"
  by code_simp

text \<open>
  C2. The grid invariant fails at a tick boundary of a run whose clock steps back.
  \<open>forwardRun\<close> ends in a road with the cars 3, 5 and 7, in which the cell at every
  listed car's recorded place holds the car's reference. The next tick reads the
  clock value 4800, earlier than the last drives at 8400. It completes and leaves
  car 3 on the car list with the recorded place lane 0, cell 15, while that cell is
  empty and no cell of the grid holds the reference of car 3. In that tick car 5 is
  sent back from cell 15 onto cell 0, which car 7 holds, and \<open>setCarPos\<close> clears
  cell 15 before it finds the destination occupied; car 3 is then sent back onto
  the cleared cell 15; at the end of the tick the removal of car 5 clears the cell
  of its recorded place, cell 15, once more.
\<close>

theorem stepBack_tick_breaks_grid:
  "\<exists>r0 r. forwardRun = Some r0 \<and> cars r0 = [3, 5, 7]
         \<and> map (\<lambda>i. roadSpace r0 ! laneNumber (heap r0 i) ! lanePosX (heap r0 i)) (cars r0)
             = map CarRef (cars r0)
         \<and> driveCars r0 4800 = Some r \<and> stepBackRun = Some r
         \<and> cars r = [3, 7] \<and> laneNumber (heap r 3) = 0 \<and> lanePosX (heap r 3) = 15
         \<and> roadSpace r ! 0 ! 15 = Empty \<and> CarRef 3 \<notin> set (concat (roadSpace r))"
proof -
  obtain r0 where r0: "forwardRun = Some r0"
    using stepBackRun_cells by (cases forwardRun) simp_all
  from stepBackRun_cells have c0: "cars r0 = [3, 5, 7]
        \<and> map (\<lambda>i. roadSpace r0 ! laneNumber (heap r0 i) ! lanePosX (heap r0 i)) (cars r0)
            = map CarRef (cars r0)
        \<and> (case driveCars r0 4800 of None \<Rightarrow> False
            | Some r \<Rightarrow> cars r = [3, 7] \<and> laneNumber (heap r 3) = 0 \<and> lanePosX (heap r 3) = 15
                \<and> roadSpace r ! 0 ! 15 = Empty \<and> CarRef 3 \<notin> set (concat (roadSpace r)))"
    unfolding r0 by simp
  then obtain r where r: "driveCars r0 4800 = Some r"
    by (cases "driveCars r0 4800") simp_all
  have s: "stepBackRun = Some r" unfolding stepBackRun_def r0 using r by simp
  from c0 have c: "cars r = [3, 7] \<and> laneNumber (heap r 3) = 0 \<and> lanePosX (heap r 3) = 15
                \<and> roadSpace r ! 0 ! 15 = Empty \<and> CarRef 3 \<notin> set (concat (roadSpace r))"
    unfolding r by simp
  show ?thesis
    apply (rule exI[of _ r0], rule exI[of _ r])
    using r0 c0 r s c by (intro conjI) blast+
qed

section \<open>The acceptance rule of \<open>canMerge\<close>\<close>

lemma scanCells_takeWhile:
  "scanCells SAll cs d0 =
     (if list_all (\<lambda>c. c = Empty) cs then 100
      else d0 + int (length (takeWhile (\<lambda>c. c = Empty) cs)))"
  by (induction cs arbitrary: d0) auto

lemma countBehind_takeWhile:
  "x < length left \<Longrightarrow>
   countBehind left x = int (length (takeWhile (\<lambda>c. c = Empty) (rev (drop 1 (take (x + 1) left)))))"
proof (induction x)
  case 0
  then show ?case by (cases left) simp_all
next
  case (Suc k)
  then have k: "k < length left" and sk: "Suc k < length left" by simp_all
  have t: "take (Suc (Suc k)) left = take (Suc k) left @ [left ! Suc k]"
    using sk by (rule take_Suc_conv_app_nth)
  have d: "drop (Suc 0) (take (Suc (Suc k)) left)
             = drop (Suc 0) (take (Suc k) left) @ [left ! Suc k]"
    unfolding t using k by simp
  have n: "isNull (laneGet left (Suc k)) = (left ! Suc k = Empty)"
    using sk by (cases "left ! Suc k") (simp_all add: laneGet_def isNull_def)
  have "countBehind left (Suc k) =
          int (length (takeWhile (\<lambda>c. c = Empty) (rev (drop (Suc 0) (take (Suc (Suc k)) left)))))"
    unfolding d using Suc.IH[OF k] by (simp add: n)
  then show ?case by simp
qed

lemma getLeftOpenSpaces_survey:
  assumes wf: "wfGrid r" and l0: "0 < l" and li: "l < length (roadSpace r)"
  shows "getLeftOpenSpaces r l x =
           Some \<lparr> left_ahead = surveyAhead (roadSpace r ! (l - 1)) x,
                  left_beside = surveyBeside (roadSpace r ! (l - 1)) x,
                  left_behind = surveyBehind (roadSpace r ! (l - 1)) x \<rparr>"
proof -
  let ?left = "roadSpace r ! (l - 1)"
  have l1: "l - 1 < length (roadSpace r)" using li by linarith
  have len: "length (roadSpace r ! l) = ROAD_WIDTH" using wf li by (rule wfGrid_nth)
  have len': "length ?left = ROAD_WIDTH" using wf l1 by (rule wfGrid_nth)
  have g: "getLaneData r l = Some (roadSpace r ! l)" "getLaneData r (l - 1) = Some ?left"
    using li l1 by (simp_all add: getLaneData_def)
  show ?thesis
  proof (cases "x + 1 < length ?left \<and> ?left ! x = Empty")
    case False
    then have b: "surveyBeside ?left x = 0" by (simp add: surveyBeside_def)
    have "getLeftOpenSpaces r l x = Some noOpenings"
    proof (cases "x + 1 < length ?left")
      case True
      with False have "?left ! x \<noteq> Empty" by simp
      then have "\<not> isNull (laneGet ?left x)"
        using True by (cases "?left ! x") (simp_all add: laneGet_def isNull_def)
      then show ?thesis
        using l0 len len' True unfolding getLeftOpenSpaces_def g by simp
    next
      case no: False
      then have "int x \<ge> int (length (roadSpace r ! l)) - 1" using len len' by linarith
      then show ?thesis
        using l0 len len' unfolding getLeftOpenSpaces_def g by simp
    qed
    with b show ?thesis by (simp add: noOpenings_def surveyAhead_def surveyBehind_def)
  next
    case True
    then have b: "surveyBeside ?left x = 1" by (simp add: surveyBeside_def)
    have x: "x < length ?left" using True by linarith
    have nul: "isNull (laneGet ?left x)" using True x by (simp add: laneGet_def isNull_def)
    have xl: "\<not> int x \<ge> int (length (roadSpace r ! l)) - 1" using True len len' by linarith
    have "getDistance r (l - 1) x SAll = scanCells SAll (drop (x + 1) ?left) 0"
      unfolding getDistance_def g using True by simp
    then have d: "getDistance r (l - 1) x SAll = surveyAhead ?left x"
      using b by (simp add: surveyAhead_def scanCells_takeWhile)
    have nn: "0 \<le> surveyAhead ?left x" by (simp add: surveyAhead_def)
    have cb: "countBehind ?left x = surveyBehind ?left x"
      using countBehind_takeWhile[OF x] b by (simp add: surveyBehind_def)
    show ?thesis
      using l0 len len' xl nul nn d cb b unfolding getLeftOpenSpaces_def g Let_def by simp
  qed
qed

lemma canMerge_desired:
  "canMerge r i =
     (case getLeft10AverageSpeed r i of
        None \<Rightarrow> None
      | Some ls \<Rightarrow>
          (case getLeftOpenSpaces r (laneNumber (heap r i)) (lanePosX (heap r i)) of
             None \<Rightarrow> Some False
           | Some sp \<Rightarrow>
               Some (desiredMergeSpaces r i ls
                       \<le> of_int (left_ahead sp + left_behind sp + left_beside sp))))"
  by (simp add: canMerge_def desiredMergeSpaces_def Let_def split: option.splits)

text \<open>
  C3, as the code has it. On a road with lanes of \<open>ROAD_WIDTH\<close> cells, for a car in a
  lane \<open>l \<ge> 1\<close> of the road, \<open>canMerge\<close> permits the merge exactly when
  \<open>ahead + behind + beside \<ge>\<close> the desired merge space, with the quantities of
  \<open>surveyAhead\<close>, \<open>surveyBehind\<close> and \<open>surveyBeside\<close> for the left lane; a car in
  lane 0 gets all-zero quantities.
\<close>

theorem canMerge_survey:
  assumes wf: "wfGrid r" and li: "laneNumber (heap r i) < length (roadSpace r)"
  shows "(0 < laneNumber (heap r i) \<longrightarrow>
            (\<exists>ls. getLeft10AverageSpeed r i = Some ls
               \<and> canMerge r i =
                   Some (desiredMergeSpaces r i ls
                     \<le> of_int (surveyAhead (roadSpace r ! (laneNumber (heap r i) - 1))
                                   (lanePosX (heap r i))
                               + surveyBehind (roadSpace r ! (laneNumber (heap r i) - 1))
                                   (lanePosX (heap r i))
                               + surveyBeside (roadSpace r ! (laneNumber (heap r i) - 1))
                                   (lanePosX (heap r i))))))
       \<and> (laneNumber (heap r i) = 0 \<longrightarrow>
            getLeftOpenSpaces r (laneNumber (heap r i)) (lanePosX (heap r i)) = Some noOpenings
            \<and> canMerge r i = Some (desiredMergeSpaces r i (- 1) \<le> 0))"
proof -
  have left: "\<exists>ls. getLeft10AverageSpeed r i = Some ls
               \<and> canMerge r i =
                   Some (desiredMergeSpaces r i ls
                     \<le> of_int (surveyAhead (roadSpace r ! (laneNumber (heap r i) - 1))
                                   (lanePosX (heap r i))
                               + surveyBehind (roadSpace r ! (laneNumber (heap r i) - 1))
                                   (lanePosX (heap r i))
                               + surveyBeside (roadSpace r ! (laneNumber (heap r i) - 1))
                                   (lanePosX (heap r i))))"
    if l0: "0 < laneNumber (heap r i)"
  proof -
    obtain ls where ls: "getLeft10AverageSpeed r i = Some ls"
      using getLeft10AverageSpeed_Some[of r i] li by auto
    show ?thesis
      unfolding canMerge_desired ls getLeftOpenSpaces_survey[OF wf l0 li]
      by simp
  qed
  have zero: "getLeftOpenSpaces r (laneNumber (heap r i)) (lanePosX (heap r i)) = Some noOpenings
            \<and> canMerge r i = Some (desiredMergeSpaces r i (- 1) \<le> 0)"
    if z: "laneNumber (heap r i) = 0"
  proof -
    have o: "getLeftOpenSpaces r (laneNumber (heap r i)) (lanePosX (heap r i)) = Some noOpenings"
      using li z by (simp add: getLeftOpenSpaces_def getLaneData_def)
    have ls: "getLeft10AverageSpeed r i = Some (- 1)"
      using z by (simp add: getLeft10AverageSpeed_def)
    show ?thesis
      unfolding canMerge_desired ls o by (simp add: noOpenings_def)
  qed
  from left zero show ?thesis by blast
qed

lemma gapLane0_survey:
  "surveyBeside gapLane0 38 = 1" "surveyAhead gapLane0 38 = 1" "surveyBehind gapLane0 38 = 1"
  "specBeside gapLane0 38 = 1" "specAhead gapLane0 38 = 1" "specBehind gapLane0 38 = 0"
  "carsIn (take 10 (drop 33 gapLane0)) = [2, 3]" "length gapLane0 = 50"
  by (simp_all add: gapLane0_def surveyBeside_def surveyAhead_def surveyBehind_def
      specBeside_def specAhead_def specBehind_def laneGet_def eval_nat_numeral)

lemma gapRoad_fields:
  "roadSpace gapRoad ! 0 = gapLane0" "length (roadSpace gapRoad) = 2"
  "laneNumber (heap gapRoad 7) = Suc 0" "lanePosX (heap gapRoad 7) = 38"
  "speed (heap gapRoad 7) = 66" "aggressiveness (heap gapRoad 7) = 1 / 2"
  "speed (heap gapRoad 2) = 66" "speed (heap gapRoad 3) = 66" "spaceSize gapRoad = 15"
  by (simp_all add: gapRoad_def car0_def newCar_def MAX_SPEED_def)

lemma gapRoad_urgency: "getMergeUrgency gapRoad 7 = 3 / 10"
proof -
  have "getDistance gapRoad (Suc 0) 38 SBlockage = 1"
    by (simp add: getDistance_def getLaneData_def gapRoad_def eval_nat_numeral isCarCell_def)
  then show ?thesis
    by (simp add: getMergeUrgency_def Let_def gapRoad_fields)
qed

lemma gapRoad_desired: "desiredMergeSpaces gapRoad 7 66 = 3"
  by (simp add: desiredMergeSpaces_def getDesiredMergeSpace_def getDesiredMergeGap_def Let_def
      gapRoad_urgency gapRoad_fields getValueFromNormalized_def MERGE_GAP_LOW_def MERGE_GAP_MID_def
      MERGE_GAP_HIGH_def MERGE_SPACE_LOW_def MERGE_SPACE_MID_def MERGE_SPACE_HIGH_def)

lemma gapRoad_leftSpeed: "getLeft10AverageSpeed gapRoad 7 = Some 66"
  by (simp add: getLeft10AverageSpeed_def getLaneData_def Let_def gapRoad_fields gapLane0_survey)

lemma gapRoad_wf: "wfGrid gapRoad"
  by (simp add: wfGrid_def gapRoad_def gapLane0_def ROAD_WIDTH_def)

lemma gapRoad_canMerge: "canMerge gapRoad 7 = Some True"
proof -
  have l0: "0 < Suc 0" and li: "Suc 0 < length (roadSpace gapRoad)"
    by (simp_all add: gapRoad_fields)
  have sp: "getLeftOpenSpaces gapRoad (Suc 0) 38
              = Some \<lparr> left_ahead = 1, left_beside = 1, left_behind = 1 \<rparr>"
    using getLeftOpenSpaces_survey[OF gapRoad_wf l0 li, of 38]
    by (simp add: gapRoad_fields gapLane0_survey)
  show ?thesis
    unfolding canMerge_desired gapRoad_leftSpeed gapRoad_fields sp
    by (simp add: gapRoad_desired)
qed

theorem canMerge_survey_witness:
  "getLeft10AverageSpeed gapRoad 7 = Some 66 \<and> desiredMergeSpaces gapRoad 7 66 = 3
   \<and> surveyAhead (roadSpace gapRoad ! 0) 38 = 1 \<and> surveyBehind (roadSpace gapRoad ! 0) 38 = 1
   \<and> surveyBeside (roadSpace gapRoad ! 0) 38 = 1
   \<and> canMerge gapRoad 7 = Some True"
proof -
  have li: "laneNumber (heap gapRoad 7) < length (roadSpace gapRoad)"
    by (simp add: gapRoad_fields)
  have s: "surveyAhead (roadSpace gapRoad ! 0) 38 = 1" "surveyBehind (roadSpace gapRoad ! 0) 38 = 1"
    "surveyBeside (roadSpace gapRoad ! 0) 38 = 1"
    by (simp_all add: gapRoad_fields gapLane0_survey)
  from canMerge_survey[OF gapRoad_wf li]
  have "canMerge gapRoad 7 = Some True"
    by (simp add: gapRoad_fields gapRoad_leftSpeed gapRoad_desired gapLane0_survey)
  with s gapRoad_leftSpeed gapRoad_desired show ?thesis by simp
qed

text \<open>
  With the runs as the claim words them, the rule fails: next to car 7 (lane 1,
  cell 38) the left lane holds cars at cells 37 and 40, so the run strictly ahead is
  1, the run strictly behind is 0 and the beside cell is empty: 2 in all, below the
  desired merge space 3. \<open>canMerge\<close> permits the merge, because its run behind
  counts the beside cell.
\<close>

theorem canMerge_not_strict_runs:
  "canMerge gapRoad 7 = Some True
   \<and> getLeft10AverageSpeed gapRoad 7 = Some 66 \<and> desiredMergeSpaces gapRoad 7 66 = 3
   \<and> specAhead (roadSpace gapRoad ! 0) 38 = 1 \<and> specBehind (roadSpace gapRoad ! 0) 38 = 0
   \<and> specBeside (roadSpace gapRoad ! 0) 38 = 1
   \<and> \<not> desiredMergeSpaces gapRoad 7 66
         \<le> of_int (specAhead (roadSpace gapRoad ! 0) 38 + specBehind (roadSpace gapRoad ! 0) 38
                     + specBeside (roadSpace gapRoad ! 0) 38)"
  by (simp add: gapRoad_canMerge gapRoad_leftSpeed gapRoad_desired gapRoad_fields gapLane0_survey)

section \<open>One tick of a single car\<close>

lemma driveAll_append:
  "driveAll (xs @ ys) now st =
     (case driveAll xs now st of None \<Rightarrow> None | Some st' \<Rightarrow> driveAll ys now st')"
  by (induction xs arbitrary: st) (simp_all split: option.splits)

lemma desiredLaneX_max:
  "desiredLaneX r i = max 0 (\<lfloor>distance (heap r i) / spaceSize r\<rfloor> - 1)"
  by (simp add: desiredLaneX_def Let_def max_def)

lemma safeLaneX_bounds:
  "0 \<le> safeLaneX r i" "safeLaneX r i \<le> desiredLaneX r i"
  "int (lanePosX (heap r i)) \<le> desiredLaneX r i \<Longrightarrow> int (lanePosX (heap r i)) \<le> safeLaneX r i"
  using desiredLaneX_nonneg[of r i] by (simp_all add: safeLaneX_def Let_def)

lemma safeLaneX_free:
  assumes wf: "wfGrid r" and l: "laneNumber (heap r i) < length (roadSpace r)"
      and k: "lanePosX (heap r i) < k" "int k \<le> safeLaneX r i" "k < ROAD_WIDTH"
  shows "roadSpace r ! laneNumber (heap r i) ! k = Empty"
proof -
  let ?l = "laneNumber (heap r i)" and ?x = "lanePosX (heap r i)"
  have len: "length (roadSpace r ! ?l) = ROAD_WIDTH" using wf l by (rule wfGrid_nth)
  have dnn: "\<not> getDistance r ?l ?x SAll < 0"
  proof
    assume "getDistance r ?l ?x SAll < 0"
    from getDistance_negative[OF l this] k(1,3) len show False by linarith
  qed
  have "safeLaneX r i \<le> int ?x + getDistance r ?l ?x SAll"
    using dnn by (simp add: safeLaneX_def Let_def)
  with k(2) have "int k \<le> int ?x + getDistance r ?l ?x SAll" by linarith
  with l k(1,3) len show ?thesis by (intro getDistance_free_ahead[where x = ?x]) simp_all
qed

lemma setCarPos_own_lane:
  "(snd (setCarPos r i (laneNumber (heap r i)) x') = 0
      \<or> snd (setCarPos r i (laneNumber (heap r i)) x') = - 1)
   \<and> laneNumber (heap (fst (setCarPos r i (laneNumber (heap r i)) x')) i) = laneNumber (heap r i)
   \<and> lanePosX (heap (fst (setCarPos r i (laneNumber (heap r i)) x')) i)
       = (if snd (setCarPos r i (laneNumber (heap r i)) x') = 0 then x'
          else lanePosX (heap r i))
   \<and> (snd (setCarPos r i (laneNumber (heap r i)) x') = 0 \<longrightarrow> x' < ROAD_WIDTH)"
  by (simp add: setCarPos_unfold setLanePos_def)

text \<open>
  C6. In a tick from a road that satisfies \<open>roadOk\<close> (every road that the program
  reaches does, whatever its clock reads: \<open>reachable_roadOk\<close>), take the car \<open>i\<close>
  whose turn comes after the cars \<open>before\<close> of the sorted list. Those cars complete
  their steps and leave a state \<open>st\<close>; the drive of \<open>i\<close> and its \<open>driveCar\<close> step
  complete, and so does the tick. The desired cell is
  \<open>floor(distance / space size) - 1\<close>, floored at 0. The step leaves the car in its
  lane: at \<open>safeLaneX\<close>, the desired cell clamped to the free space ahead, if a commit
  was attempted and succeeded, and where it was otherwise. Every cell that the car
  passed or landed on ahead of its old place was empty, so it never moves past the
  first obstacle ahead, and it ends no further than the desired cell. A car whose
  desired cell is not behind it never moves back, and its commit fails only when
  \<open>safeLaneX\<close> lies past the end of the lane; a desired cell behind the car is
  taken as it is, and the commit onto it can find it occupied. If the commit was
  attempted and failed, for an occupied destination or for one out of bounds, the
  tick ends with the car off the car list and with no cell of the grid holding its
  reference.
\<close>

theorem driveCars_step_of_car:
  assumes ok: "roadOk r" and order: "sortedCars r = before @ i # after"
  shows "\<exists>st r1 st2 r'.
           driveAll before now (r, []) = Some st
         \<and> drive (fst st) i now = Some r1 \<and> driveCar st i now = Some st2
         \<and> driveCars r now = Some r'
         \<and> desiredLaneX r1 i = max 0 (\<lfloor>distance (heap r1 i) / spaceSize r1\<rfloor> - 1)
         \<and> laneNumber (heap (fst st2) i) = laneNumber (heap r1 i)
         \<and> int (lanePosX (heap (fst st2) i))
             = (if safeLaneX r1 i \<noteq> int (lanePosX (heap r1 i))
                   \<and> snd (setCarPos r1 i (laneNumber (heap r1 i)) (nat (safeLaneX r1 i))) = 0
                then safeLaneX r1 i else int (lanePosX (heap r1 i)))
         \<and> (\<forall>k. lanePosX (heap r1 i) < k \<and> k \<le> lanePosX (heap (fst st2) i) \<longrightarrow>
                roadSpace r1 ! laneNumber (heap r1 i) ! k = Empty)
         \<and> int (lanePosX (heap (fst st2) i)) \<le> max (int (lanePosX (heap r1 i))) (desiredLaneX r1 i)
         \<and> (int (lanePosX (heap r1 i)) \<le> desiredLaneX r1 i \<longrightarrow>
              lanePosX (heap r1 i) \<le> lanePosX (heap (fst st2) i)
              \<and> (safeLaneX r1 i \<noteq> int (lanePosX (heap r1 i)) \<and> safeLaneX r1 i < int ROAD_WIDTH \<longrightarrow>
                   snd (setCarPos r1 i (laneNumber (heap r1 i)) (nat (safeLaneX r1 i))) = 0))
         \<and> (safeLaneX r1 i \<noteq> int (lanePosX (heap r1 i))
              \<and> snd (setCarPos r1 i (laneNumber (heap r1 i)) (nat (safeLaneX r1 i))) = - 1 \<longrightarrow>
             i \<notin> set (cars r')
             \<and> (\<forall>l x. l < length (roadSpace r') \<and> x < length (roadSpace r' ! l) \<longrightarrow>
                    roadSpace r' ! l ! x \<noteq> CarRef i))"
proof -
  have mem: "i \<in> set (sortedCars r)" unfolding order by simp
  then have i: "i \<in> set (cars r)" by simp
  have "set (sortedCars r) = set before \<union> insert i (set after)" unfolding order by simp
  then have bsub: "set before \<subseteq> set (cars r)" and asub: "set after \<subseteq> set (cars r)" by auto
  have e: "\<forall>k\<in>set ([]::int list). 0 \<le> k" by simp
  obtain rS remS where st: "driveAll before now (r, []) = Some (rS, remS)" and okS: "roadOk rS"
    and carsS: "cars rS = cars r" and remS: "\<forall>k\<in>set remS. 0 \<le> k"
    using driveAll_roadOk[OF ok bsub e] by blast
  have iS: "i \<in> set (cars rS)" using i carsS by simp
  obtain r1 where r1: "drive rS i now = Some r1" and ok1: "roadOk r1"
    and cars1: "cars r1 = cars rS"
    using drive_roadOk[OF okS iS] by blast
  have i1: "i \<in> set (cars r1)" using iS cars1 by simp
  let ?x = "lanePosX (heap r1 i)" and ?l = "laneNumber (heap r1 i)"
  let ?safe = "safeLaneX r1 i"
  let ?res = "setCarPos r1 i ?l (nat ?safe)"
  let ?idx = "indexOf (cars rS) i"
  note d1 = roadOkD[OF ok1]
  have l: "?l < length (roadSpace r1)" and x: "?x < ROAD_WIDTH"
    using d1(4)[OF i1] d1(5)[OF i1] by simp_all
  note sb = safeLaneX_bounds[of r1 i]
  note own = setCarPos_own_lane[of r1 i "nat ?safe"]
  obtain r2 rem2 where step: "driveCar (rS, remS) i now = Some (r2, rem2)"
    and ok2: "roadOk r2" and cars2: "cars r2 = cars rS" and rem2: "\<forall>k\<in>set rem2. 0 \<le> k"
    using driveCar_roadOk[OF okS iS remS] by blast
  have asub2: "set after \<subseteq> set (cars r2)" using asub cars2 carsS by simp
  obtain r3 rem3 where rest: "driveAll after now (r2, rem2) = Some (r3, rem3)"
    and ok3: "roadOk r3" and cars3: "cars r3 = cars r2" and rem3: "\<forall>k\<in>set rem3. 0 \<le> k"
    and sub3: "set rem2 \<subseteq> set rem3"
    using driveAll_roadOk[OF ok2 asub2 rem2] by blast
  have loop: "driveAll (sortedCars r) now (r, []) = Some (r3, rem3)"
    unfolding order driveAll_append using st step rest by simp
  have items: "\<forall>k\<in>set (rev (sort rem3)). 0 \<le> k" using rem3 by simp
  obtain r' where fin: "removeAll_idx now (rev (sort rem3)) r3 = Some r'" and ok': "roadOk r'"
    using removeAll_idx_roadOk[OF ok3 items] by blast
  have tick: "driveCars r now = Some r'" using loop fin by (simp add: driveCars_def)
  have shape: "(r2, rem2) =
          (if ?safe = int ?x then (r1, remS)
           else if snd ?res = - 1 then (fst ?res, remS @ [?idx])
           else (fst ?res, remS))"
    using step driveCar_unfold[OF r1, of remS] by simp
  have lane: "laneNumber (heap r2 i) = ?l"
    using shape own by (auto split: if_splits)
  have pos: "int (lanePosX (heap r2 i))
               = (if ?safe \<noteq> int ?x \<and> snd ?res = 0 then ?safe else int ?x)"
    using shape own sb(1) by (auto split: if_splits)
  have clear: "roadSpace r1 ! ?l ! k = Empty" if k: "?x < k" "k \<le> lanePosX (heap r2 i)" for k
  proof -
    from k pos have c: "?safe \<noteq> int ?x" "snd ?res = 0" and ks: "int k \<le> ?safe"
      by (auto split: if_splits)
    from c(2) own have "nat ?safe < ROAD_WIDTH" by blast
    with ks have "k < ROAD_WIDTH" by linarith
    with d1(1) l k(1) ks show ?thesis by (intro safeLaneX_free)
  qed
  have bound: "int (lanePosX (heap r2 i)) \<le> max (int ?x) (desiredLaneX r1 i)"
    using pos sb(2) by (auto split: if_splits)
  have fwd: "?x \<le> lanePosX (heap r2 i)" if "int ?x \<le> desiredLaneX r1 i"
    using pos sb(3)[OF that] by (auto split: if_splits)
  have commit: "snd ?res = 0"
    if des: "int ?x \<le> desiredLaneX r1 i" and ne: "?safe \<noteq> int ?x"
      and lt: "?safe < int ROAD_WIDTH"
  proof -
    have gt: "?x < nat ?safe" using sb(3)[OF des] ne by linarith
    have x': "nat ?safe < ROAD_WIDTH" using lt sb(1) by linarith
    have "int (nat ?safe) \<le> ?safe" using sb(1) by simp
    with d1(1) l gt x' have free: "roadSpace r1 ! ?l ! nat ?safe = Empty"
      by (intro safeLaneX_free)
    from setCarPos_free[OF d1(1) l x' l x free] show ?thesis by simp
  qed
  have gone: "i \<notin> set (cars r')
             \<and> (\<forall>l x. l < length (roadSpace r') \<and> x < length (roadSpace r' ! l) \<longrightarrow>
                    roadSpace r' ! l ! x \<noteq> CarRef i)"
    if ne: "?safe \<noteq> int ?x" and fail: "snd ?res = - 1"
  proof -
    from shape ne fail have "?idx \<in> set rem2" by simp
    with sub3 have in3: "?idx \<in> set (rev (sort rem3))" by auto
    have srt: "sorted (rev (rev (sort rem3)))" by simp
    have c3: "cars r3 = cars rS" using cars3 cars2 by simp
    note im = indexOf_member[OF iS]
    have valid: "nat ?idx < length (cars r3)" and at: "cars r3 ! nat ?idx = i"
      using im c3 by simp_all
    from removeAll_idx_drops[OF ok3 items srt in3 valid fin] at
    have off: "i \<notin> set (cars r')" by simp
    have "\<forall>l x. l < length (roadSpace r') \<and> x < length (roadSpace r' ! l) \<longrightarrow>
                    roadSpace r' ! l ! x \<noteq> CarRef i"
      using roadOk_no_ref[OF ok' off] by blast
    with off show ?thesis by blast
  qed
  have d: "drive (fst (rS, remS)) i now = Some r1" using r1 by simp
  have s2: "fst (r2, rem2) = r2" by simp
  have fwd': "int ?x \<le> desiredLaneX r1 i \<longrightarrow>
              ?x \<le> lanePosX (heap r2 i)
              \<and> (?safe \<noteq> int ?x \<and> ?safe < int ROAD_WIDTH \<longrightarrow> snd ?res = 0)"
    using fwd commit by blast
  have clear': "\<forall>k. ?x < k \<and> k \<le> lanePosX (heap r2 i) \<longrightarrow> roadSpace r1 ! ?l ! k = Empty"
    using clear by blast
  have gone': "?safe \<noteq> int ?x \<and> snd ?res = - 1 \<longrightarrow>
             i \<notin> set (cars r')
             \<and> (\<forall>l x. l < length (roadSpace r') \<and> x < length (roadSpace r' ! l) \<longrightarrow>
                    roadSpace r' ! l ! x \<noteq> CarRef i)"
    using gone by blast
  show ?thesis
    apply (rule exI[of _ "(rS, remS)"], rule exI[of _ r1], rule exI[of _ "(r2, rem2)"],
        rule exI[of _ r'])
    unfolding s2
    using st d step tick desiredLaneX_max[of r1 i] lane pos clear' bound fwd' gone'
    by (intro conjI)
qed

lemma refsOk_cells:
  "refsOk r =
     (\<forall>l\<in>{0 ..< length (roadSpace r)}. \<forall>x\<in>{0 ..< ROAD_WIDTH}.
        case roadSpace r ! l ! x of
          CarRef i \<Rightarrow> i \<in> set (cars r) \<and> laneNumber (heap r i) = l \<and> lanePosX (heap r i) = x
        | _ \<Rightarrow> True)"
  unfolding refsOk_def by (auto split: cell.splits)

lemma jamRoad_ok: "roadOk jamRoad"
  unfolding roadOk_def refsOk_cells by code_simp

lemma jamRoad_sorted: "sortedCars jamRoad = [7] @ 5 # [3]"
  by code_simp

lemma jamRoad_reached:
  "(case forwardRun of None \<Rightarrow> False
    | Some r \<Rightarrow> roadSpace r = roadSpace jamRoad \<and> cars r = cars jamRoad
        \<and> map (heap r) [3, 5, 7] = map (heap jamRoad) [3, 5, 7]
        \<and> spaceSize r = spaceSize jamRoad \<and> blockedLanes r = blockedLanes jamRoad)"
  by code_simp

lemma jamRoad_step:
  "(case driveAll [7] 4800 (jamRoad, []) of None \<Rightarrow> False
    | Some st \<Rightarrow>
        (case drive (fst st) 5 4800 of None \<Rightarrow> False
         | Some r1 \<Rightarrow> desiredLaneX r1 5 = 0 \<and> safeLaneX r1 5 = 0
             \<and> lanePosX (heap r1 5) = 15 \<and> laneNumber (heap r1 5) = 0
             \<and> roadSpace r1 ! 0 ! 0 = CarRef 7 \<and> snd (setCarPos r1 5 0 0) = - 1))"
  by code_simp

lemma jamRoad_sorted_last: "sortedCars jamRoad = [7, 5] @ 3 # []"
  by code_simp

lemma jamRoad_queue:
  "(case driveAll [7] 13000 (jamRoad, []) of None \<Rightarrow> False
    | Some st \<Rightarrow>
        (case drive (fst st) 5 13000 of None \<Rightarrow> False
         | Some r1 \<Rightarrow> desiredLaneX r1 5 = 35 \<and> safeLaneX r1 5 = 30
             \<and> lanePosX (heap r1 5) = 15 \<and> laneNumber (heap r1 5) = 0
             \<and> roadSpace r1 ! 0 ! 31 = CarRef 3))"
  by code_simp

lemma jamRoad_exit:
  "(case driveAll [7, 5] 13000 (jamRoad, []) of None \<Rightarrow> False
    | Some st \<Rightarrow>
        (case drive (fst st) 3 13000 of None \<Rightarrow> False
         | Some r1 \<Rightarrow> desiredLaneX r1 3 = 51 \<and> safeLaneX r1 3 = 51
             \<and> lanePosX (heap r1 3) = 31 \<and> laneNumber (heap r1 3) = 0
             \<and> snd (setCarPos r1 3 0 51) = - 1))"
  by code_simp

text \<open>
  Three steps from \<open>jamRoad\<close>. In the tick that reads the clock value 4800, earlier
  than the last drives, car 5 (cell 15) has the desired cell 0, which car 7 holds:
  the commit fails and the tick ends without car 5. In the tick at 13000 car 5 has
  the desired cell 35 and stops at cell 30, behind car 3 at cell 31; car 3 has the
  desired cell 51, past the end of the lane: the commit fails and the tick ends
  without car 3.
\<close>

theorem driveCars_step_of_car_witness:
  "(\<exists>st r1 r'. driveAll [7] 4800 (jamRoad, []) = Some st \<and> drive (fst st) 5 4800 = Some r1
        \<and> driveCars jamRoad 4800 = Some r'
        \<and> lanePosX (heap r1 5) = 15 \<and> desiredLaneX r1 5 = 0
        \<and> roadSpace r1 ! 0 ! 0 = CarRef 7 \<and> snd (setCarPos r1 5 0 0) = - 1
        \<and> 5 \<notin> set (cars r')
        \<and> (\<forall>l x. l < length (roadSpace r') \<and> x < length (roadSpace r' ! l) \<longrightarrow>
               roadSpace r' ! l ! x \<noteq> CarRef 5))
   \<and> (\<exists>st r1 st2. driveAll [7] 13000 (jamRoad, []) = Some st
        \<and> drive (fst st) 5 13000 = Some r1 \<and> driveCar st 5 13000 = Some st2
        \<and> lanePosX (heap r1 5) = 15 \<and> desiredLaneX r1 5 = 35
        \<and> roadSpace r1 ! 0 ! 31 = CarRef 3
        \<and> laneNumber (heap (fst st2) 5) = 0 \<and> lanePosX (heap (fst st2) 5) = 30)
   \<and> (\<exists>st r1 r'. driveAll [7, 5] 13000 (jamRoad, []) = Some st
        \<and> drive (fst st) 3 13000 = Some r1 \<and> driveCars jamRoad 13000 = Some r'
        \<and> lanePosX (heap r1 3) = 31 \<and> desiredLaneX r1 3 = 51
        \<and> snd (setCarPos r1 3 0 51) = - 1
        \<and> 3 \<notin> set (cars r')
        \<and> (\<forall>l x. l < length (roadSpace r') \<and> x < length (roadSpace r' ! l) \<longrightarrow>
               roadSpace r' ! l ! x \<noteq> CarRef 3))"
proof (intro conjI)
  show "\<exists>st r1 r'. driveAll [7] 4800 (jamRoad, []) = Some st \<and> drive (fst st) 5 4800 = Some r1
        \<and> driveCars jamRoad 4800 = Some r'
        \<and> lanePosX (heap r1 5) = 15 \<and> desiredLaneX r1 5 = 0
        \<and> roadSpace r1 ! 0 ! 0 = CarRef 7 \<and> snd (setCarPos r1 5 0 0) = - 1
        \<and> 5 \<notin> set (cars r')
        \<and> (\<forall>l x. l < length (roadSpace r') \<and> x < length (roadSpace r' ! l) \<longrightarrow>
               roadSpace r' ! l ! x \<noteq> CarRef 5)"
    using driveCars_step_of_car[OF jamRoad_ok jamRoad_sorted, of 4800]
  proof (elim exE conjE)
    fix st r1 st2 r'
    assume a: "driveAll [7] 4800 (jamRoad, []) = Some st" "drive (fst st) 5 4800 = Some r1"
        "driveCars jamRoad 4800 = Some r'"
      and gone: "safeLaneX r1 5 \<noteq> int (lanePosX (heap r1 5))
              \<and> snd (setCarPos r1 5 (laneNumber (heap r1 5)) (nat (safeLaneX r1 5))) = - 1 \<longrightarrow>
             5 \<notin> set (cars r')
             \<and> (\<forall>l x. l < length (roadSpace r') \<and> x < length (roadSpace r' ! l) \<longrightarrow>
                    roadSpace r' ! l ! x \<noteq> CarRef 5)"
    from jamRoad_step a(1,2) have f: "desiredLaneX r1 5 = 0" "safeLaneX r1 5 = 0"
      "lanePosX (heap r1 5) = 15" "laneNumber (heap r1 5) = 0"
      "roadSpace r1 ! 0 ! 0 = CarRef 7" "snd (setCarPos r1 5 0 0) = - 1"
      by simp_all
    have pre: "safeLaneX r1 5 \<noteq> int (lanePosX (heap r1 5))
              \<and> snd (setCarPos r1 5 (laneNumber (heap r1 5)) (nat (safeLaneX r1 5))) = - 1"
      using f(6) by (simp add: f(2,3,4))
    from gone pre have g: "5 \<notin> set (cars r')
             \<and> (\<forall>l x. l < length (roadSpace r') \<and> x < length (roadSpace r' ! l) \<longrightarrow>
                    roadSpace r' ! l ! x \<noteq> CarRef 5)"
      by (rule mp)
    from g have g1: "5 \<notin> set (cars r')"
      and g2: "\<forall>l x. l < length (roadSpace r') \<and> x < length (roadSpace r' ! l) \<longrightarrow>
                    roadSpace r' ! l ! x \<noteq> CarRef 5"
      by blast+
    show ?thesis
      apply (rule exI[of _ st], rule exI[of _ r1], rule exI[of _ r'])
      using a f(3) f(1) f(5) f(6) g1 g2 by (intro conjI)
  qed
next
  show "\<exists>st r1 st2. driveAll [7] 13000 (jamRoad, []) = Some st
        \<and> drive (fst st) 5 13000 = Some r1 \<and> driveCar st 5 13000 = Some st2
        \<and> lanePosX (heap r1 5) = 15 \<and> desiredLaneX r1 5 = 35
        \<and> roadSpace r1 ! 0 ! 31 = CarRef 3
        \<and> laneNumber (heap (fst st2) 5) = 0 \<and> lanePosX (heap (fst st2) 5) = 30"
    using driveCars_step_of_car[OF jamRoad_ok jamRoad_sorted, of 13000]
  proof (elim exE conjE)
    fix st r1 st2 r'
    assume a: "driveAll [7] 13000 (jamRoad, []) = Some st"
        "drive (fst st) 5 13000 = Some r1" "driveCar st 5 13000 = Some st2"
      and lane: "laneNumber (heap (fst st2) 5) = laneNumber (heap r1 5)"
      and pos: "int (lanePosX (heap (fst st2) 5))
             = (if safeLaneX r1 5 \<noteq> int (lanePosX (heap r1 5))
                   \<and> snd (setCarPos r1 5 (laneNumber (heap r1 5)) (nat (safeLaneX r1 5))) = 0
                then safeLaneX r1 5 else int (lanePosX (heap r1 5)))"
      and fwd: "int (lanePosX (heap r1 5)) \<le> desiredLaneX r1 5 \<longrightarrow>
              lanePosX (heap r1 5) \<le> lanePosX (heap (fst st2) 5)
              \<and> (safeLaneX r1 5 \<noteq> int (lanePosX (heap r1 5)) \<and> safeLaneX r1 5 < int ROAD_WIDTH \<longrightarrow>
                   snd (setCarPos r1 5 (laneNumber (heap r1 5)) (nat (safeLaneX r1 5))) = 0)"
    from jamRoad_queue a(1,2) have f: "desiredLaneX r1 5 = 35" "safeLaneX r1 5 = 30"
      "lanePosX (heap r1 5) = 15" "laneNumber (heap r1 5) = 0"
      "roadSpace r1 ! 0 ! 31 = CarRef 3"
      by simp_all
    from fwd have ok: "snd (setCarPos r1 5 (laneNumber (heap r1 5)) (nat (safeLaneX r1 5))) = 0"
      by (simp add: f(1,2,3) ROAD_WIDTH_def)
    from pos ok have p: "lanePosX (heap (fst st2) 5) = 30" by (simp add: f(2,3))
    from lane have q: "laneNumber (heap (fst st2) 5) = 0" by (simp add: f(4))
    show ?thesis
      apply (rule exI[of _ st], rule exI[of _ r1], rule exI[of _ st2])
      using a f(3) f(1) f(5) q p by (intro conjI)
  qed
next
  show "\<exists>st r1 r'. driveAll [7, 5] 13000 (jamRoad, []) = Some st
        \<and> drive (fst st) 3 13000 = Some r1 \<and> driveCars jamRoad 13000 = Some r'
        \<and> lanePosX (heap r1 3) = 31 \<and> desiredLaneX r1 3 = 51
        \<and> snd (setCarPos r1 3 0 51) = - 1
        \<and> 3 \<notin> set (cars r')
        \<and> (\<forall>l x. l < length (roadSpace r') \<and> x < length (roadSpace r' ! l) \<longrightarrow>
               roadSpace r' ! l ! x \<noteq> CarRef 3)"
    using driveCars_step_of_car[OF jamRoad_ok jamRoad_sorted_last, of 13000]
  proof (elim exE conjE)
    fix st r1 st2 r'
    assume a: "driveAll [7, 5] 13000 (jamRoad, []) = Some st" "drive (fst st) 3 13000 = Some r1"
        "driveCars jamRoad 13000 = Some r'"
      and gone: "safeLaneX r1 3 \<noteq> int (lanePosX (heap r1 3))
              \<and> snd (setCarPos r1 3 (laneNumber (heap r1 3)) (nat (safeLaneX r1 3))) = - 1 \<longrightarrow>
             3 \<notin> set (cars r')
             \<and> (\<forall>l x. l < length (roadSpace r') \<and> x < length (roadSpace r' ! l) \<longrightarrow>
                    roadSpace r' ! l ! x \<noteq> CarRef 3)"
    from jamRoad_exit a(1,2) have f: "desiredLaneX r1 3 = 51" "safeLaneX r1 3 = 51"
      "lanePosX (heap r1 3) = 31" "laneNumber (heap r1 3) = 0"
      "snd (setCarPos r1 3 0 51) = - 1"
      by simp_all
    have pre: "safeLaneX r1 3 \<noteq> int (lanePosX (heap r1 3))
              \<and> snd (setCarPos r1 3 (laneNumber (heap r1 3)) (nat (safeLaneX r1 3))) = - 1"
      using f(5) by (simp add: f(2,3,4))
    from gone pre have g: "3 \<notin> set (cars r')
             \<and> (\<forall>l x. l < length (roadSpace r') \<and> x < length (roadSpace r' ! l) \<longrightarrow>
                    roadSpace r' ! l ! x \<noteq> CarRef 3)"
      by (rule mp)
    from g have g1: "3 \<notin> set (cars r')"
      and g2: "\<forall>l x. l < length (roadSpace r') \<and> x < length (roadSpace r' ! l) \<longrightarrow>
                    roadSpace r' ! l ! x \<noteq> CarRef 3"
      by blast+
    show ?thesis
      apply (rule exI[of _ st], rule exI[of _ r1], rule exI[of _ r'])
      using a f(3) f(1) f(5) g1 g2 by (intro conjI)
  qed
qed

section \<open>Merging within the tick\<close>

lemma minSpaces_ge_1:
  "0 \<le> a \<Longrightarrow> 1 \<le> getValueFromNormalized a MERGE_SPACE_LOW MERGE_SPACE_MID MERGE_SPACE_HIGH"
  by (simp add: getValueFromNormalized_def MERGE_SPACE_LOW_def MERGE_SPACE_MID_def
      MERGE_SPACE_HIGH_def Let_def)

lemma getDesiredMergeSpace_ge_1:
  "0 \<le> aggressiveness c \<Longrightarrow> 1 \<le> getDesiredMergeSpace c rd u"
  using minSpaces_ge_1[of "aggressiveness c"]
  unfolding getDesiredMergeSpace_def Let_def by (simp only: le_max_iff_disj simp_thms)

lemma canMerge_True_beside:
  assumes cm: "canMerge r i = Some True" and ag: "0 \<le> aggressiveness (heap r i)"
  shows "\<exists>sp. getLeftOpenSpaces r (laneNumber (heap r i)) (lanePosX (heap r i)) = Some sp
              \<and> left_beside sp = 1"
proof -
  let ?des0 = "getDesiredMergeSpace (heap r i) (Some r) (getMergeUrgency r i)"
  obtain ls where ls: "getLeft10AverageSpeed r i = Some ls"
    using cm by (auto simp: canMerge_def Let_def split: option.splits)
  let ?des = "if ls \<ge> 0 \<and> ls \<le> 1 \<and> ?des0 > 2 then 2 else ?des0"
  have pos: "1 \<le> ?des" using getDesiredMergeSpace_ge_1[OF ag, of "Some r" "getMergeUrgency r i"]
    by simp
  obtain sp where sp: "getLeftOpenSpaces r (laneNumber (heap r i)) (lanePosX (heap r i)) = Some sp"
    and tot: "?des \<le> of_int (left_ahead sp + left_behind sp + left_beside sp)"
    using cm ls by (auto simp: canMerge_def Let_def split: option.splits if_splits)
  have "sp \<noteq> noOpenings"
  proof
    assume "sp = noOpenings"
    with tot have "?des \<le> 0" by (simp add: noOpenings_def)
    with pos show False by linarith
  qed
  with sp have "left_beside sp = 1"
    by (auto simp: getLeftOpenSpaces_def Let_def split: option.splits if_splits)
  with sp show ?thesis by blast
qed

lemma getLeftOpenSpaces_beside:
  assumes "getLeftOpenSpaces r l x = Some sp" "left_beside sp = 1"
  shows "0 < l \<and> l < length (roadSpace r)
       \<and> length (roadSpace r ! (l - 1)) = length (roadSpace r ! l)
       \<and> int x < int (length (roadSpace r ! l)) - 1
       \<and> isNull (laneGet (roadSpace r ! (l - 1)) x)"
  using assms
  by (auto simp: getLeftOpenSpaces_def getLaneData_def Let_def noOpenings_def
      split: option.splits if_splits)

lemma merge_free:
  assumes wf: "wfGrid r" and l0: "0 < laneNumber (heap r i)"
      and li: "laneNumber (heap r i) < length (roadSpace r)"
      and xi: "lanePosX (heap r i) < ROAD_WIDTH"
      and free: "roadSpace r ! (laneNumber (heap r i) - 1) ! lanePosX (heap r i) = Empty"
  shows "merge r i = Some (moved (alerted r i (laneNumber (heap r i) - 1)) i
                            (laneNumber (heap r i) - 1) (lanePosX (heap r i)))"
proof -
  let ?l = "laneNumber (heap r i) - 1" and ?x = "lanePosX (heap r i)"
  have l: "?l < length (roadSpace r)" using li by linarith
  have len: "length (roadSpace r ! ?l) = ROAD_WIDTH" using wf l by (rule wfGrid_nth)
  have nul: "isNull (laneGet (roadSpace r ! ?l) ?x)"
    using xi len free by (simp add: laneGet_def isNull_def)
  have "setCarPos r i ?l ?x = (moved (alerted r i ?l) i ?l ?x, 0)"
    using wf l xi li xi free by (rule setCarPos_free)
  with l0 l nul show ?thesis
    by (simp add: merge_def Let_def getLaneData_def)
qed

lemma drivePrepare_frame:
  assumes "drivePrepare r i now t = Some r5"
  shows "roadSpace r5 = roadSpace r \<and> laneNumber (heap r5 j) = laneNumber (heap r j)
       \<and> lanePosX (heap r5 j) = lanePosX (heap r j)
       \<and> aggressiveness (heap r5 j) = aggressiveness (heap r j)"
proof -
  let ?r1 = "updCar r i (\<lambda>c. c\<lparr>distance := distance c + speed c * (of_int (now - t) / 1000)\<rparr>)"
  obtain r2 where r2: "effectSpeed ?r1 i = Some r2"
    using effectSpeed_Some by blast
  have a: "roadSpace r2 = roadSpace r \<and> laneNumber (heap r2 j) = laneNumber (heap r j)
       \<and> lanePosX (heap r2 j) = lanePosX (heap r j)
       \<and> aggressiveness (heap r2 j) = aggressiveness (heap r j)" for j
    using r2 by (auto simp: effectSpeed_def Let_def updCar_def split: if_splits option.splits)
  let ?r3 = "effectMergeState r2 i"
  have b: "roadSpace ?r3 = roadSpace r2 \<and> laneNumber (heap ?r3 j) = laneNumber (heap r2 j)
       \<and> lanePosX (heap ?r3 j) = lanePosX (heap r2 j)
       \<and> aggressiveness (heap ?r3 j) = aggressiveness (heap r2 j)" for j
    by (simp add: effectMergeState_def Let_def updCar_def)
  have r5: "r5 = updCar (updCar ?r3 i (\<lambda>c. c\<lparr>lastMoved := Some now\<rparr>)) i
                   (\<lambda>c. c\<lparr>indicator := (state c = Merge)\<rparr>)"
    using assms r2 by (simp add: drivePrepare_def Let_def)
  show ?thesis unfolding r5 using a b by (simp add: updCar_def)
qed

lemma setCarPos_same_lane:
  "laneNumber (heap (fst (setCarPos r i (laneNumber (heap r i)) x)) j) = laneNumber (heap r j)"
  by (simp add: setCarPos_unfold setLanePos_def)

lemma driveCar_lane:
  assumes "drive r i now = Some r1"
  shows "\<exists>st'. driveCar (r, rem) i now = Some st'
              \<and> laneNumber (heap (fst st') i) = laneNumber (heap r1 i)"
  using assms by (simp add: driveCar_def Let_def setCarPos_same_lane)

text \<open>
  C5. On a road with lanes of \<open>ROAD_WIDTH\<close> cells, for a car of non-negative
  aggressiveness that has driven before: if after the preparing part of its drive
  (distance, speed, merge state) the car is in the Merge state and \<open>canMerge\<close> is
  true there, then the car is not in lane 0, its drive completes and its lane index
  is one less afterwards, and it is still one less after its whole \<open>driveCar\<close> step
  of the tick.
\<close>

theorem merge_performed_same_tick:
  assumes wf: "wfGrid r" and ag: "0 \<le> aggressiveness (heap r i)"
      and lm: "lastMoved (heap r i) = Some t"
      and pre: "drivePrepare r i now t = Some r5"
      and st: "state (heap r5 i) = Merge"
      and cm: "canMerge r5 i = Some True"
  shows "0 < laneNumber (heap r i)
       \<and> (\<exists>r'. drive r i now = Some r' \<and> laneNumber (heap r' i) = laneNumber (heap r i) - 1)
       \<and> (\<exists>st'. driveCar (r, rem) i now = Some st'
                 \<and> laneNumber (heap (fst st') i) = laneNumber (heap r i) - 1)"
proof -
  note fr = drivePrepare_frame[OF pre]
  have grid: "roadSpace r5 = roadSpace r" using fr by simp
  have l5: "laneNumber (heap r5 i) = laneNumber (heap r i)"
    and x5: "lanePosX (heap r5 i) = lanePosX (heap r i)"
    and ag5: "0 \<le> aggressiveness (heap r5 i)"
    using fr[of i] ag by simp_all
  have wf5: "wfGrid r5" using wf grid by (simp add: wfGrid_def)
  let ?l = "laneNumber (heap r5 i)" and ?x = "lanePosX (heap r5 i)"
  obtain sp where "getLeftOpenSpaces r5 ?l ?x = Some sp" "left_beside sp = 1"
    using canMerge_True_beside[OF cm ag5] by blast
  from getLeftOpenSpaces_beside[OF this]
  have l0: "0 < ?l" and li: "?l < length (roadSpace r5)"
    and xl: "int ?x < int (length (roadSpace r5 ! ?l)) - 1"
    and nul: "isNull (laneGet (roadSpace r5 ! (?l - 1)) ?x)"
    by simp_all
  have len: "length (roadSpace r5 ! ?l) = ROAD_WIDTH" using wf5 li by (rule wfGrid_nth)
  have xi: "?x < ROAD_WIDTH" using xl len by linarith
  have "?l - 1 < length (roadSpace r5)" using li by linarith
  then have len': "length (roadSpace r5 ! (?l - 1)) = ROAD_WIDTH" using wf5 by (simp add: wfGrid_nth)
  have free: "roadSpace r5 ! (?l - 1) ! ?x = Empty"
    using nul xi len' by (cases "roadSpace r5 ! (?l - 1) ! ?x") (simp_all add: laneGet_def isNull_def)
  let ?r' = "moved (alerted r5 i (?l - 1)) i (?l - 1) ?x"
  have m: "merge r5 i = Some ?r'"
    using wf5 l0 li xi free by (rule merge_free)
  have d: "drive r i now = Some ?r'"
    using lm pre st cm m by (simp add: drive_def)
  have lane': "laneNumber (heap ?r' i) = laneNumber (heap r i) - 1"
    using l5 by (simp add: setLanePos_def)
  from driveCar_lane[OF d, of rem] obtain st' where
    "driveCar (r, rem) i now = Some st'" "laneNumber (heap (fst st') i) = laneNumber (heap ?r' i)"
    by blast
  with d lane' l0 l5 show ?thesis by auto
qed

lemmas merge_defs = mergeRoad_def car0_def newCar_def

lemma mergeRoad_distances:
  "getDistance mergeRoad (Suc 0) 36 SAll = 3"
  "getDistance mergeRoad (Suc 0) 36 SBlockage = 3"
  "getDistance mergeRoad 0 36 SAll = 100"
  by (simp_all add: getDistance_def getLaneData_def merge_defs eval_nat_numeral isCarCell_def)

lemma getDistance_grid:
  "roadSpace r = roadSpace r' \<Longrightarrow> getDistance r l x t = getDistance r' l x t"
  by (simp add: getDistance_def getLaneData_def)

lemma mergeRoad_fields:
  "roadSpace (updCar mergeRoad j f) = roadSpace mergeRoad"
  "length (roadSpace mergeRoad) = 2" "blockedLanes mergeRoad = 1" "spaceSize mergeRoad = 15"
  "length (roadSpace mergeRoad ! Suc 0) = 50" "length (roadSpace mergeRoad ! 0) = 50"
  by (simp_all add: merge_defs updCar_def)

lemma mergeRoad_prepare: "drivePrepare mergeRoad 7 1200 1000 = Some mergeRoadReady"
proof -
  define r1 where
    "r1 = updCar mergeRoad 7 (\<lambda>c. c\<lparr>distance := distance c + speed c * (of_int (1200 - 1000) / 1000)\<rparr>)"
  have h1: "heap r1 = (\<lambda>_. car0)(7 := car0\<lparr>laneNumber := 1, lanePosX := 36,
                                     lastMoved := Some 1000, distance := 2866 / 5\<rparr>)"
    by (simp add: r1_def merge_defs updCar_def MAX_SPEED_def)
  have g1: "roadSpace r1 = roadSpace mergeRoad" "blockedLanes r1 = 1" "spaceSize r1 = 15"
    "length (roadSpace r1) = 2"
    by (simp_all add: r1_def updCar_def mergeRoad_def)
  have c1: "laneNumber (heap r1 7) = Suc 0" "lanePosX (heap r1 7) = 36" "state (heap r1 7) = Default"
    "speed (heap r1 7) = 66" "followingDistance (heap r1 7) = 3" "carsLetIn (heap r1 7) = 0"
    "cooperation (heap r1 7) = 1" "mergeTendency (heap r1 7) = 9 / 10"
    unfolding h1 by (simp_all add: car0_def newCar_def MAX_SPEED_def
        getValueFromNormalized_def FOLLOWING_DISTANCE_LOW_def FOLLOWING_DISTANCE_MID_def
        FOLLOWING_DISTANCE_HIGH_def)
  have d1: "getDistance r1 (Suc 0) 36 SAll = 3" "getDistance r1 (Suc 0) 36 SBlockage = 3"
    using mergeRoad_distances getDistance_grid[OF g1(1)] by simp_all
  have s1: "\<not> shouldLetCarIn r1 7"
    by (simp add: shouldLetCarIn_def Let_def getCarQuota_def c1 g1 mergeRoad_fields)
  have f1: "followingDifference r1 7 3 = Some (- 153)"
    using s1 by (simp add: followingDifference_def getDesiredDistance_def Let_def c1 g1)
  have z1: "\<not> isInRubberneckZone r1 7"
    by (simp add: isInRubberneckZone_def Let_def c1 g1 mergeRoad_fields)
  define r2 where "r2 = updCar r1 7 (\<lambda>c. adjustSpeedBy c (- 153))"
  have e1: "effectSpeed r1 7 = Some r2"
    by (simp add: effectSpeed_def Let_def c1 d1 f1 z1 r2_def)
  have h2: "heap r2 = (\<lambda>_. car0)(7 := car0\<lparr>laneNumber := 1, lanePosX := 36,
                                     lastMoved := Some 1000, distance := 2866 / 5, speed := 0\<rparr>)"
    by (simp add: r2_def updCar_def h1 adjustSpeedBy_def Let_def car0_def newCar_def MAX_SPEED_def)
  have g2: "roadSpace r2 = roadSpace mergeRoad" by (simp add: r2_def updCar_def g1)
  have c2: "laneNumber (heap r2 7) = Suc 0" "lanePosX (heap r2 7) = 36" "state (heap r2 7) = Default"
    "mergeTendency (heap r2 7) = 9 / 10"
    unfolding h2 by (simp_all add: car0_def newCar_def)
  have d2: "getDistance r2 (Suc 0) 36 SBlockage = 3"
    using mergeRoad_distances getDistance_grid[OF g2] by simp
  have m2: "effectMergeState r2 7 = updCar r2 7 (\<lambda>c. c\<lparr>state := Merge\<rparr>)"
    by (simp add: effectMergeState_def Let_def c2 d2 getDesiredMergingDistance_def
        getValueFromNormalized_def MERGE_DISTANCE_LOW_def MERGE_DISTANCE_MID_def
        MERGE_DISTANCE_HIGH_def)
  have r2: "r2 = mergeRoad\<lparr>heap := heap r2\<rparr>"
    by (simp add: r2_def r1_def updCar_def)
  have "drivePrepare mergeRoad 7 1200 1000 =
          Some (updCar (updCar (updCar r2 7 (\<lambda>c. c\<lparr>state := Merge\<rparr>)) 7
                  (\<lambda>c. c\<lparr>lastMoved := Some 1200\<rparr>)) 7 (\<lambda>c. c\<lparr>indicator := (state c = Merge)\<rparr>))"
    unfolding drivePrepare_def Let_def r1_def[symmetric] e1 option.case m2 by (rule refl)
  also have "updCar (updCar (updCar r2 7 (\<lambda>c. c\<lparr>state := Merge\<rparr>)) 7
                  (\<lambda>c. c\<lparr>lastMoved := Some 1200\<rparr>)) 7 (\<lambda>c. c\<lparr>indicator := (state c = Merge)\<rparr>)
             = mergeRoadReady"
    by (subst r2) (simp add: updCar_def h2 mergeRoadReady_def car0_def newCar_def)
  finally show ?thesis .
qed

lemma mergeRoadReady_fields:
  "roadSpace mergeRoadReady = roadSpace mergeRoad" "spaceSize mergeRoadReady = 15"
  "laneNumber (heap mergeRoadReady 7) = Suc 0" "lanePosX (heap mergeRoadReady 7) = 36"
  "state (heap mergeRoadReady 7) = Merge" "speed (heap mergeRoadReady 7) = 0"
  "aggressiveness (heap mergeRoadReady 7) = 1 / 2"
  by (simp_all add: mergeRoadReady_def mergeRoad_def car0_def newCar_def)

lemma carsIn_replicate_Empty [simp]: "carsIn (replicate n Empty) = []"
  by (induction n) simp_all

lemma mergeRoad_lane0: "roadSpace mergeRoad ! 0 = replicate 50 Empty"
  by (simp add: mergeRoad_def)

lemma mergeRoadReady_canMerge: "canMerge mergeRoadReady 7 = Some True"
proof -
  note f = mergeRoadReady_fields
  have d: "getDistance mergeRoadReady (Suc 0) 36 SBlockage = 3"
    "getDistance mergeRoadReady 0 36 SAll = 100"
    using mergeRoad_distances getDistance_grid[OF f(1)] by simp_all
  have des: "getDesiredMergeSpace (heap mergeRoadReady 7) (Some mergeRoadReady) u = 3" for u
    by (simp add: getDesiredMergeSpace_def Let_def f getValueFromNormalized_def
        MERGE_SPACE_LOW_def MERGE_SPACE_MID_def MERGE_SPACE_HIGH_def)
  have ls: "getLeft10AverageSpeed mergeRoadReady 7 = Some (- 1)"
    by (simp add: getLeft10AverageSpeed_def Let_def f getLaneData_def mergeRoad_fields
        mergeRoad_lane0)
  have cb: "countBehind (replicate 50 Empty) 36 = 36"
    by (simp add: eval_nat_numeral laneGet_def isNull_def)
  have sp: "getLeftOpenSpaces mergeRoadReady (Suc 0) 36
              = Some \<lparr> left_ahead = 100, left_beside = 1, left_behind = 36 \<rparr>"
    unfolding getLeftOpenSpaces_def Let_def
    by (simp add: getLaneData_def f d mergeRoad_fields mergeRoad_lane0 laneGet_def isNull_def cb)
  show ?thesis
    by (simp add: canMerge_def Let_def f des ls sp)
qed

theorem merge_performed_same_tick_witness:
  "drivePrepare mergeRoad 7 1200 1000 = Some mergeRoadReady
   \<and> state (heap mergeRoadReady 7) = Merge \<and> canMerge mergeRoadReady 7 = Some True
   \<and> laneNumber (heap mergeRoad 7) = 1
   \<and> (\<exists>r'. drive mergeRoad 7 1200 = Some r' \<and> laneNumber (heap r' 7) = 0)
   \<and> (\<exists>st'. driveCar (mergeRoad, []) 7 1200 = Some st' \<and> laneNumber (heap (fst st') 7) = 0)"
proof -
  have wf: "wfGrid mergeRoad" by (simp add: wfGrid_def mergeRoad_def ROAD_WIDTH_def)
  have ag: "0 \<le> aggressiveness (heap mergeRoad 7)"
    and lm: "lastMoved (heap mergeRoad 7) = Some 1000"
    and l: "laneNumber (heap mergeRoad 7) = 1"
    by (simp_all add: merge_defs)
  note t = merge_performed_same_tick[OF wf ag lm mergeRoad_prepare mergeRoadReady_fields(5)
      mergeRoadReady_canMerge, of "[]"]
  from t l mergeRoad_prepare mergeRoadReady_fields(5) mergeRoadReady_canMerge
  show ?thesis by simp
qed

section \<open>The quota check in \<open>canMerge\<close>\<close>

lemmas pair_defs = pairRoad_def pairHeap_def car0_def newCar_def

text \<open>
  C8. The merge decision does not depend on the let-in counters or on the
  cooperation traits (from which the quotas are derived): whatever values \<open>n\<close> and
  \<open>k\<close> give them, for every car of the road, \<open>canMerge\<close> returns the same result.
\<close>

theorem canMerge_ignores_quota:
  "canMerge (r\<lparr>heap := (\<lambda>j. (heap r j)\<lparr>carsLetIn := n j, cooperation := k j\<rparr>)\<rparr>) i = canMerge r i"
proof -
  let ?r = "r\<lparr>heap := (\<lambda>j. (heap r j)\<lparr>carsLetIn := n j, cooperation := k j\<rparr>)\<rparr>"
  have g: "getLaneData ?r l = getLaneData r l" for l
    by (simp add: getLaneData_def)
  have d: "getDistance ?r l x t = getDistance r l x t" for l x t
    unfolding getDistance_def g by (rule refl)
  have p: "laneNumber (heap ?r j) = laneNumber (heap r j)" "lanePosX (heap ?r j) = lanePosX (heap r j)"
    "speed (heap ?r j) = speed (heap r j)" "aggressiveness (heap ?r j) = aggressiveness (heap r j)"
    "spaceSize ?r = spaceSize r" for j
    by simp_all
  have u: "getMergeUrgency ?r i = getMergeUrgency r i"
    unfolding getMergeUrgency_def d p by (rule refl)
  have m: "getDesiredMergeSpace (heap ?r i) (Some ?r) v = getDesiredMergeSpace (heap r i) (Some r) v"
    for v unfolding getDesiredMergeSpace_def getDesiredMergeGap_def option.case p by (rule refl)
  have s: "getLeft10AverageSpeed ?r i = getLeft10AverageSpeed r i"
    unfolding getLeft10AverageSpeed_def g p by (rule refl)
  have o: "getLeftOpenSpaces ?r l x = getLeftOpenSpaces r l x" for l x
    unfolding getLeftOpenSpaces_def g d by (rule refl)
  show ?thesis
    unfolding canMerge_def u m s o p
    by (cases "getLeft10AverageSpeed r i") (simp_all add: Let_def)
qed

lemma pairRoad_spaces:
  "getLeftOpenSpaces pairRoad 1 5 = Some \<lparr> left_ahead = 100, left_beside = 1, left_behind = 2 \<rparr>"
  by (simp add: getLeftOpenSpaces_def getLaneData_def getDistance_def pair_defs laneGet_def
      isNull_def Let_def eval_nat_numeral)

lemma pairRoadFull_spaces:
  "getLeftOpenSpaces pairRoadFull 1 5 = Some \<lparr> left_ahead = 100, left_beside = 1, left_behind = 2 \<rparr>"
  by (simp add: pairRoadFull_def getLeftOpenSpaces_def getLaneData_def getDistance_def pair_defs
      laneGet_def isNull_def Let_def eval_nat_numeral)

theorem canMerge_ignores_quota_witness:
  "checkUnderCarLeftQuota pairRoad 1 (getLeftOpenSpaces pairRoad 1 5)
   \<and> \<not> checkUnderCarLeftQuota pairRoadFull 1 (getLeftOpenSpaces pairRoadFull 1 5)
   \<and> canMerge pairRoadFull 1 = canMerge pairRoad 1"
proof -
  have a: "checkUnderCarLeftQuota pairRoad 1 (getLeftOpenSpaces pairRoad 1 5)"
    unfolding pairRoad_spaces
    by (simp add: checkUnderCarLeftQuota_def getCarQuota_def pair_defs laneGet_def Let_def)
  have b: "\<not> checkUnderCarLeftQuota pairRoadFull 1 (getLeftOpenSpaces pairRoadFull 1 5)"
    unfolding pairRoadFull_spaces
    by (simp add: checkUnderCarLeftQuota_def getCarQuota_def pairRoadFull_def pair_defs
        laneGet_def Let_def)
  have c: "canMerge pairRoadFull 1 = canMerge pairRoad 1"
    unfolding pairRoadFull_def
    by (rule canMerge_ignores_quota)
  from a b c show ?thesis by (intro conjI)
qed

section \<open>Rubbernecking in \<open>effectSpeed\<close>\<close>

lemma rubberneckTerm_closed:
  "rubberneckTerm c =
     - (15 / 100) * speed c
       * ((real (BLOCK_START + RUBBERNECK_ZONE_LENGTH) - real (lanePosX c))
            / real RUBBERNECK_ZONE_LENGTH)\<^sup>2"
  by (simp add: rubberneckTerm_def Let_def RUBBERNECK_SPEED_FACTOR_def BLOCK_START_def
      RUBBERNECK_ZONE_LENGTH_def power2_eq_square field_simps)

lemma isInRubberneckZone_iff:
  "isInRubberneckZone r i \<longleftrightarrow>
     int (laneNumber (heap r i)) < int (length (roadSpace r)) - blockedLanes r
     \<and> BLOCK_START \<le> lanePosX (heap r i)
     \<and> lanePosX (heap r i) < BLOCK_START + RUBBERNECK_ZONE_LENGTH"
  by (auto simp: isInRubberneckZone_def Let_def)

text \<open>
  C7, as the code has it. For a car on a road with lanes of \<open>ROAD_WIDTH\<close> cells and a
  non-negative speed: in a non-blocked lane and inside the 8-cell zone from the
  blockage start, \<open>effectSpeed\<close> adds to the following-distance adjustment the amount
  \<open>- 0.15 * speed * ((48 - x) / 8)\<^sup>2\<close>, which is never positive and is negative for a
  moving car; it is largest in size at the zone's first cell and shrinks with the
  square of the remaining depth. Outside the zone or in a blocked lane nothing is
  added (and with an error code for the distance ahead the speed is left alone).
\<close>

theorem effectSpeed_rubbernecking:
  assumes wf: "wfGrid r" and li: "laneNumber (heap r i) < length (roadSpace r)"
      and sp: "0 \<le> speed (heap r i)"
  shows "\<exists>diff. followingDifference r i
                  (getDistance r (laneNumber (heap r i)) (lanePosX (heap r i)) SAll) = Some diff
       \<and> (int (laneNumber (heap r i)) < int (length (roadSpace r)) - blockedLanes r
            \<and> BLOCK_START \<le> lanePosX (heap r i)
            \<and> lanePosX (heap r i) < BLOCK_START + RUBBERNECK_ZONE_LENGTH \<longrightarrow>
          effectSpeed r i =
            Some (updCar r i (\<lambda>c. adjustSpeedBy c
              (diff + - (15 / 100) * speed (heap r i)
                 * ((real (BLOCK_START + RUBBERNECK_ZONE_LENGTH) - real (lanePosX (heap r i)))
                      / real RUBBERNECK_ZONE_LENGTH)\<^sup>2)))
          \<and> - (15 / 100) * speed (heap r i)
                 * ((real (BLOCK_START + RUBBERNECK_ZONE_LENGTH) - real (lanePosX (heap r i)))
                      / real RUBBERNECK_ZONE_LENGTH)\<^sup>2 \<le> 0
          \<and> (0 < speed (heap r i) \<longrightarrow>
               - (15 / 100) * speed (heap r i)
                 * ((real (BLOCK_START + RUBBERNECK_ZONE_LENGTH) - real (lanePosX (heap r i)))
                      / real RUBBERNECK_ZONE_LENGTH)\<^sup>2 < 0))
       \<and> (\<not> (int (laneNumber (heap r i)) < int (length (roadSpace r)) - blockedLanes r
            \<and> BLOCK_START \<le> lanePosX (heap r i)
            \<and> lanePosX (heap r i) < BLOCK_START + RUBBERNECK_ZONE_LENGTH) \<longrightarrow>
          effectSpeed r i =
            (if getDistance r (laneNumber (heap r i)) (lanePosX (heap r i)) SAll < 0 then Some r
             else Some (updCar r i (\<lambda>c. adjustSpeedBy c diff))))"
proof -
  let ?d = "getDistance r (laneNumber (heap r i)) (lanePosX (heap r i)) SAll"
  let ?x = "lanePosX (heap r i)"
  let ?T = "- (15 / 100) * speed (heap r i)
                 * ((real (BLOCK_START + RUBBERNECK_ZONE_LENGTH) - real ?x)
                      / real RUBBERNECK_ZONE_LENGTH)\<^sup>2"
  obtain diff where diff: "followingDifference r i ?d = Some diff"
    using followingDifference_Some[of r i ?d] li by auto
  have zone: "effectSpeed r i = Some (updCar r i (\<lambda>c. adjustSpeedBy c (diff + ?T)))
              \<and> ?T \<le> 0 \<and> (0 < speed (heap r i) \<longrightarrow> ?T < 0)"
    if z: "isInRubberneckZone r i"
  proof -
    have x: "?x < BLOCK_START + RUBBERNECK_ZONE_LENGTH" and x0: "BLOCK_START \<le> ?x"
      using z by (simp_all add: isInRubberneckZone_iff)
    have len: "length (roadSpace r ! laneNumber (heap r i)) = ROAD_WIDTH"
      using wf li by (rule wfGrid_nth)
    have "\<not> ?d < 0"
    proof
      assume "?d < 0"
      from getDistance_negative[OF li this] len x show False
        by (simp add: ROAD_WIDTH_def BLOCK_START_def RUBBERNECK_ZONE_LENGTH_def)
    qed
    then have e: "effectSpeed r i = Some (updCar r i (\<lambda>c. adjustSpeedBy c (diff + ?T)))"
      using diff z by (simp add: effectSpeed_def Let_def rubberneckTerm_closed)
    have sq: "0 < ((real (BLOCK_START + RUBBERNECK_ZONE_LENGTH) - real ?x)
                      / real RUBBERNECK_ZONE_LENGTH)\<^sup>2"
      using x by (simp add: RUBBERNECK_ZONE_LENGTH_def)
    have le: "?T \<le> 0"
      using sp sq by (simp add: mult_nonneg_nonneg)
    have lt: "?T < 0" if "0 < speed (heap r i)"
      using that sq by (simp add: mult_pos_pos)
    from e le lt show ?thesis by blast
  qed
  have out: "effectSpeed r i = (if ?d < 0 then Some r
               else Some (updCar r i (\<lambda>c. adjustSpeedBy c diff)))"
    if "\<not> isInRubberneckZone r i"
    using that diff by (simp add: effectSpeed_def Let_def)
  show ?thesis
    using diff zone out unfolding isInRubberneckZone_iff by (intro exI[of _ diff]) blast
qed

lemmas zone_defs = zoneRoad_def car0_def newCar_def

lemma zoneRoad_distance: "getDistance zoneRoad 0 44 SAll = 100"
  by (simp add: getDistance_def getLaneData_def zone_defs eval_nat_numeral)

lemma zoneRoad_fields:
  "laneNumber (heap zoneRoad 7) = 0" "lanePosX (heap zoneRoad 7) = 44"
  "speed (heap zoneRoad 7) = 66" "carsLetIn (heap zoneRoad 7) = 0"
  "cooperation (heap zoneRoad 7) = 1" "followingDistance (heap zoneRoad 7) = 3"
  "state (heap zoneRoad 7) = Default"
  "length (roadSpace zoneRoad) = 2" "blockedLanes zoneRoad = 1" "spaceSize zoneRoad = 15"
  "length (roadSpace zoneRoad ! Suc 0) = 50"
  by (simp_all add: zone_defs MAX_SPEED_def getValueFromNormalized_def
      FOLLOWING_DISTANCE_LOW_def FOLLOWING_DISTANCE_MID_def FOLLOWING_DISTANCE_HIGH_def)

lemma zoneRoad_shouldLetCarIn: "\<not> shouldLetCarIn zoneRoad 7"
proof -
  have d: "getDistance zoneRoad (Suc 0) 45 SAll = 0"
    by (simp add: getDistance_def getLaneData_def zone_defs eval_nat_numeral)
  have c: "laneGet (roadSpace zoneRoad ! Suc 0) 45 = Some Blockage"
    by (simp add: laneGet_def zone_defs nth_append)
  show ?thesis
    by (simp add: shouldLetCarIn_def Let_def getCarQuota_def indicatingCarAt_def
        zoneRoad_fields d c)
qed

lemma zoneRoad_difference: "followingDifference zoneRoad 7 100 = Some 1302"
  using zoneRoad_shouldLetCarIn
  by (simp add: followingDifference_def getDesiredDistance_def Let_def zoneRoad_fields)

theorem effectSpeed_rubbernecking_witness:
  "isInRubberneckZone zoneRoad 7
   \<and> effectSpeed zoneRoad 7
       = Some (updCar zoneRoad 7 (\<lambda>c. adjustSpeedBy c (1302 + - (99 / 40))))"
proof -
  have wf: "wfGrid zoneRoad" by (simp add: wfGrid_def zone_defs ROAD_WIDTH_def)
  have li: "laneNumber (heap zoneRoad 7) < length (roadSpace zoneRoad)"
    and sp: "0 \<le> speed (heap zoneRoad 7)"
    by (simp_all add: zone_defs MAX_SPEED_def)
  note p = zoneRoad_fields
  have z: "isInRubberneckZone zoneRoad 7"
    unfolding isInRubberneckZone_iff p BLOCK_START_def RUBBERNECK_ZONE_LENGTH_def by simp
  from effectSpeed_rubbernecking[OF wf li sp] z show ?thesis
    unfolding isInRubberneckZone_iff p zoneRoad_distance zoneRoad_difference
      BLOCK_START_def RUBBERNECK_ZONE_LENGTH_def
    by (simp add: power2_eq_square)
qed

text \<open>
  The rubbernecking amount does not fade linearly: for a car at full speed it is
  \<open>-9.9\<close> at the zone's first cell 40 and \<open>-2.475\<close> half way, at cell 44, where a
  linear fade to zero gives \<open>-4.95\<close>; the steps from cell to cell are not equal; and
  at the zone's last cell 47 it is not zero.
\<close>

theorem rubberneck_not_linear:
  "rubberneckTerm (car0\<lparr>lanePosX := 40\<rparr>) = - (99 / 10)
   \<and> rubberneckTerm (car0\<lparr>lanePosX := 44\<rparr>) = - (99 / 40)
   \<and> linearFade (rubberneckTerm (car0\<lparr>lanePosX := 40\<rparr>)) 44 = - (99 / 20)
   \<and> rubberneckTerm (car0\<lparr>lanePosX := 44\<rparr>)
        \<noteq> linearFade (rubberneckTerm (car0\<lparr>lanePosX := 40\<rparr>)) 44
   \<and> rubberneckTerm (car0\<lparr>lanePosX := 41\<rparr>) - rubberneckTerm (car0\<lparr>lanePosX := 40\<rparr>)
        \<noteq> rubberneckTerm (car0\<lparr>lanePosX := 42\<rparr>) - rubberneckTerm (car0\<lparr>lanePosX := 41\<rparr>)
   \<and> rubberneckTerm (car0\<lparr>lanePosX := 47\<rparr>) \<noteq> 0"
  by (simp add: rubberneckTerm_closed linearFade_def car0_def newCar_def MAX_SPEED_def
      BLOCK_START_def RUBBERNECK_ZONE_LENGTH_def power2_eq_square)

section \<open>The fairness score\<close>

lemma foldl_plus_sum_list: "foldl (\<lambda>s t. s + t) a xs = a + sum_list (xs :: real list)"
  by (induction xs arbitrary: a) (simp_all add: algebra_simps)

lemma getFairness_eq:
  "getFairness r =
     (if length (completedCars r) < 2 \<or> specMean (travelTimes r) = 0 then 1
      else 1 / (1 + specStdDev (travelTimes r) / specMean (travelTimes r)))"
  by (simp add: getFairness_def Let_def foldl_plus_sum_list specMean_def specStdDev_def
      travelTimes_def o_def)

lemma specMean_nonneg: "\<forall>t\<in>set ts. 0 \<le> t \<Longrightarrow> 0 \<le> specMean ts"
  by (simp add: specMean_def sum_list_nonneg)

lemma specStdDev_nonneg: "0 \<le> specStdDev ts"
  unfolding specStdDev_def
  by (intro real_sqrt_ge_zero divide_nonneg_nonneg sum_list_nonneg) auto

text \<open>
  C9, as the code has it. For completion records whose travel times are not
  negative, \<open>getFairness\<close> lies in \<open>(0, 1]\<close>; it is exactly 1 when the road holds
  fewer than two records or the mean travel time is zero, and otherwise it is
  \<open>1 / (1 + CV)\<close>, with \<open>CV\<close> the population standard deviation divided by the mean
  of the travel times of all the records that the road holds, expired or not.
\<close>

theorem getFairness_bounds:
  assumes "\<forall>c\<in>set (completedCars r). 0 \<le> travelTime c"
  shows "0 < getFairness r \<and> getFairness r \<le> 1
       \<and> (length (completedCars r) < 2 \<or> specMean (travelTimes r) = 0 \<longrightarrow> getFairness r = 1)
       \<and> (\<not> (length (completedCars r) < 2 \<or> specMean (travelTimes r) = 0) \<longrightarrow>
            getFairness r = 1 / (1 + specStdDev (travelTimes r) / specMean (travelTimes r)))"
proof -
  have m: "0 \<le> specMean (travelTimes r)"
    using assms by (intro specMean_nonneg) (auto simp: travelTimes_def)
  have s: "0 \<le> specStdDev (travelTimes r)" by (rule specStdDev_nonneg)
  have cv: "0 \<le> specStdDev (travelTimes r) / specMean (travelTimes r)"
    using m s by simp
  show ?thesis
    using cv by (simp add: getFairness_eq)
qed

theorem getFairness_bounds_witness:
  "map travelTime (completedCars fairRoad) = [1, 3]
   \<and> specMean (travelTimes fairRoad) = 2 \<and> specStdDev (travelTimes fairRoad) = 1
   \<and> getFairness fairRoad = 2 / 3 \<and> 0 < getFairness fairRoad \<and> getFairness fairRoad \<le> 1"
proof -
  have h: "\<forall>c\<in>set (completedCars fairRoad). 0 \<le> travelTime c"
    by (simp add: fairRoad_def)
  have m: "specMean (travelTimes fairRoad) = 2"
    by (simp add: specMean_def travelTimes_def fairRoad_def)
  have s: "specStdDev (travelTimes fairRoad) = 1"
    by (simp add: specStdDev_def specMean_def travelTimes_def fairRoad_def)
  have l: "length (completedCars fairRoad) = 2" by (simp add: fairRoad_def)
  have t: "map travelTime (completedCars fairRoad) = [1, 3]" by (simp add: fairRoad_def)
  show ?thesis
    using getFairness_bounds[OF h] t m s l by simp
qed

text \<open>
  Two ways in which the score leaves what the claim says. With the travel times
  \<open>-3\<close> and \<open>-1\<close> (cars removed at a clock value earlier than that of their
  \<open>addCar\<close>) the score is 2, outside \<open>(0, 1]\<close>. With the travel times 1 and 3, the
  first record expired at the clock value 10002 and not yet purged, the score is
  2/3, where the unexpired record alone gives \<open>1 / (1 + 0)\<close>.
\<close>

theorem getFairness_outside_bounds:
  "map travelTime (completedCars lateRoad) = [- 3, - 1] \<and> getFairness lateRoad = 2
   \<and> map travelTime (completedCars fairRoad) = [1, 3]
   \<and> map travelTime (unexpired 10002 fairRoad) = [3]
   \<and> getFairness fairRoad = 2 / 3
   \<and> 1 / (1 + specStdDev [3] / specMean [3]) = 1"
proof -
  have t: "map travelTime (completedCars lateRoad) = [- 3, - 1]" by (simp add: lateRoad_def)
  have m: "specMean (travelTimes lateRoad) = - 2"
    by (simp add: specMean_def travelTimes_def lateRoad_def)
  have s: "specStdDev (travelTimes lateRoad) = 1"
    by (simp add: specStdDev_def specMean_def travelTimes_def lateRoad_def)
  have l: "length (completedCars lateRoad) = 2" by (simp add: lateRoad_def)
  have g: "getFairness lateRoad = 2" by (simp add: getFairness_eq m s l)
  have t2: "map travelTime (completedCars fairRoad) = [1, 3]" by (simp add: fairRoad_def)
  have u: "map travelTime (unexpired 10002 fairRoad) = [3]"
    by (simp add: unexpired_def fairRoad_def)
  have m2: "specMean (travelTimes fairRoad) = 2"
    by (simp add: specMean_def travelTimes_def fairRoad_def)
  have s2: "specStdDev (travelTimes fairRoad) = 1"
    by (simp add: specStdDev_def specMean_def travelTimes_def fairRoad_def)
  have l2: "length (completedCars fairRoad) = 2" by (simp add: fairRoad_def)
  have g2: "getFairness fairRoad = 2 / 3" by (simp add: getFairness_eq m2 s2 l2)
  have v: "1 / (1 + specStdDev [3] / specMean [3]) = 1"
    by (simp add: specStdDev_def specMean_def)
  from t g t2 u g2 v show ?thesis by (intro conjI)
qed

end
